theory Spec2Isabelle
  imports Main "HOL-Library.Word"
begin

section \<open>Strings and JSON values\<close>

text \<open>
  A JavaScript string is a sequence of UTF-16 code units. Literals of the source are
  written with \<open>lit\<close>, which maps an ASCII literal to its code units.
\<close>

type_synonym jsstring = "nat list"

definition lit :: "string \<Rightarrow> jsstring" where
  "lit s = map of_char s"

text \<open>
  \<open>String.prototype.trim\<close> removes the ECMAScript WhiteSpace and LineTerminator code
  units from both ends: TAB, LF, VT, FF, CR, SP, NBSP, U+1680, U+2000 to U+200A,
  U+2028, U+2029, U+202F, U+205F, U+3000 and U+FEFF.
\<close>

definition is_js_space :: "nat \<Rightarrow> bool" where
  "is_js_space c =
     ((9 \<le> c \<and> c \<le> 13) \<or> c = 32 \<or> c = 160 \<or> c = 5760 \<or> (8192 \<le> c \<and> c \<le> 8202) \<or>
      c = 8232 \<or> c = 8233 \<or> c = 8239 \<or> c = 8287 \<or> c = 12288 \<or> c = 65279)"

definition trim :: "jsstring \<Rightarrow> jsstring" where
  "trim s = rev (dropWhile is_js_space (rev (dropWhile is_js_space s)))"

text \<open>
  A JSON value as \<open>JSON.parse\<close> delivers it. Numbers are kept as integers: the program
  never computes with them. \<open>JSON.stringify\<close> and \<open>JSON.parse\<close> belong to the platform
  and are parameters (\<open>stringify\<close>, \<open>parse\<close>) of the functions that call them.
\<close>

datatype json =
    JNull
  | JBool bool
  | JNum int
  | JStr jsstring
  | JArr "json list"
  | JObj "(jsstring \<times> json) list"

section \<open>Target messages\<close>

text \<open>
  The target (OpenAI) messages are untyped objects in the source. The fields the program
  reads and writes are \<open>role\<close>, \<open>content\<close>, \<open>tool_calls\<close> and \<open>tool_call_id\<close>; an absent
  field is \<open>None\<close> (\<open>CUndefined\<close> for the content).
\<close>

datatype cache_control = Ephemeral

record text_block =
  block_type :: jsstring
  block_text :: jsstring
  block_cache_control :: "cache_control option"

datatype content =
    CUndefined
  | CNull
  | CString jsstring
  | CBlocks "text_block list"

record tool_call =
  call_id :: jsstring
  call_type :: jsstring
  function_name :: jsstring
  function_arguments :: jsstring

record message =
  role :: jsstring
  content :: content
  tool_calls :: "tool_call list option"
  tool_call_id :: "jsstring option"

text \<open>JavaScript truthiness of a content value: an array is truthy, the empty string is not.\<close>

fun truthy_content :: "content \<Rightarrow> bool" where
  "truthy_content CUndefined = False"
| "truthy_content CNull = False"
| "truthy_content (CString s) = (s \<noteq> [])"
| "truthy_content (CBlocks bs) = True"

section \<open>The tool-pairing validator\<close>

definition is_tool :: "message \<Rightarrow> bool" where
  "is_tool m = (role m = lit ''tool'')"

text \<open>\<open>m.role === "assistant" && m.tool_calls\<close>: an array, even an empty one, is truthy.\<close>

definition is_assistant_with_calls :: "message \<Rightarrow> bool" where
  "is_assistant_with_calls m = (role m = lit ''assistant'' \<and> tool_calls m \<noteq> None)"

definition calls_of :: "message \<Rightarrow> tool_call list" where
  "calls_of m = (case tool_calls m of None \<Rightarrow> [] | Some tcs \<Rightarrow> tcs)"

text \<open>\<open>toolMsg.tool_call_id === toolCall.id\<close>\<close>

definition answers :: "message \<Rightarrow> tool_call \<Rightarrow> bool" where
  "answers toolMsg toolCall = (tool_call_id toolMsg = Some (call_id toolCall))"

text \<open>
  The forward scan \<open>while (j < messages.length && messages[j].role === "tool")\<close> from
  \<open>j = i + 1\<close>: the maximal run of tool messages right after index \<open>i\<close>.
\<close>

definition immediateToolMessages :: "message list \<Rightarrow> nat \<Rightarrow> message list" where
  "immediateToolMessages messages i = takeWhile is_tool (drop (Suc i) messages)"

definition validToolCalls :: "message list \<Rightarrow> nat \<Rightarrow> tool_call list" where
  "validToolCalls messages i =
     filter (\<lambda>toolCall. list_ex (\<lambda>toolMsg. answers toolMsg toolCall) (immediateToolMessages messages i))
       (calls_of (messages ! i))"

text \<open>
  The backward loop \<open>for (k = i - 1; k >= 0; k--)\<close>: \<open>scan_back messages n cur\<close> looks at
  index \<open>n - 1\<close> first, skips tool messages, and stops at the first message of another role.
\<close>

fun scan_back :: "message list \<Rightarrow> nat \<Rightarrow> message \<Rightarrow> bool" where
  "scan_back messages 0 cur = False"
| "scan_back messages (Suc k) cur =
     (if is_tool (messages ! k) then scan_back messages k cur
      else if is_assistant_with_calls (messages ! k)
        then list_ex (\<lambda>toolCall. answers cur toolCall) (calls_of (messages ! k))
      else False)"

definition hasImmediateToolCall :: "message list \<Rightarrow> nat \<Rightarrow> bool" where
  "hasImmediateToolCall messages i =
     (if i > 0 then
        (let prevMessage = messages ! (i - 1) in
         if is_assistant_with_calls prevMessage
           then list_ex (\<lambda>toolCall. answers (messages ! i) toolCall) (calls_of prevMessage)
         else if is_tool prevMessage then scan_back messages i (messages ! i)
         else False)
      else False)"

text \<open>
  One iteration of the main loop, for an index \<open>i < length messages\<close>: the messages it
  pushes onto \<open>validatedMessages\<close>.
\<close>

definition validate_at :: "message list \<Rightarrow> nat \<Rightarrow> message list" where
  "validate_at messages i =
     (let currentMessage = messages ! i in
      if is_assistant_with_calls currentMessage then
        (let valid = validToolCalls messages i;
             updated = (if length valid > 0 then currentMessage\<lparr>tool_calls := Some valid\<rparr>
                        else currentMessage\<lparr>tool_calls := None\<rparr>)
         in if truthy_content (content updated) \<or> tool_calls updated \<noteq> None then [updated] else [])
      else if is_tool currentMessage then
        (if hasImmediateToolCall messages i then [currentMessage] else [])
      else [currentMessage])"

definition validateOpenAIToolCalls :: "message list \<Rightarrow> message list" where
  "validateOpenAIToolCalls messages =
     concat (map (validate_at messages) [0..<length messages])"

section \<open>The message translator\<close>

text \<open>
  Source (Anthropic) messages. A field holding an arbitrary JSON value is a \<open>json option\<close>,
  \<open>None\<close> when the field is absent (\<open>undefined\<close>). A block whose \<open>type\<close> is none of
  \<open>text\<close>, \<open>tool_use\<close> and \<open>tool_result\<close> is an \<open>OtherBlock\<close> carrying the whole block;
  \<open>NullBlock\<close> is a \<open>null\<close> entry of the content array, on which reading \<open>.type\<close> raises
  a TypeError.
\<close>

datatype content_block =
    TextBlock "json option"
  | ToolUseBlock jsstring jsstring json
  | ToolResultBlock jsstring "json option"
  | OtherBlock json
  | NullBlock

datatype source_content =
    ContentString jsstring
  | ContentArray "content_block list"
  | ContentOther

record source_message =
  src_role :: jsstring
  src_content :: source_content

datatype js_error = JsError jsstring

definition null_type_error :: js_error where
  "null_type_error = JsError (lit ''Cannot read properties of null (reading 'type')'')"

text \<open>
  The separator the source appends after each text part is written \<open>"\\n"\<close> there: the
  two code units backslash and \<open>n\<close>, not a line feed.
\<close>

definition separator :: jsstring where
  "separator = [92, 110]"

text \<open>
  \<open>typeof v === "string" ? v : JSON.stringify(v)\<close> inside a string concatenation:
  \<open>JSON.stringify(undefined)\<close> is \<open>undefined\<close>, which concatenates as \<open>"undefined"\<close>.
\<close>

fun text_of :: "(json \<Rightarrow> jsstring) \<Rightarrow> json option \<Rightarrow> jsstring" where
  "text_of stringify (Some (JStr s)) = s"
| "text_of stringify (Some j) = stringify j"
| "text_of stringify None = lit ''undefined''"

text \<open>The same conditional as the \<open>content\<close> of a tool message: \<open>undefined\<close> stays absent.\<close>

fun tool_content :: "(json \<Rightarrow> jsstring) \<Rightarrow> json option \<Rightarrow> content" where
  "tool_content stringify (Some (JStr s)) = CString s"
| "tool_content stringify (Some j) = CString (stringify j)"
| "tool_content stringify None = CUndefined"

text \<open>
  The JSON object of a block, for \<open>JSON.stringify(contentPart)\<close> in the fallback branch.
  A typed block keeps only its typed fields, in the order of the SDK's type declarations;
  the source serialises the block as it arrived, so a block with further keys or another
  key order gives another text there. Only the text of a message of a role other than
  \<open>assistant\<close> and \<open>user\<close> depends on it.
\<close>

fun block_json :: "content_block \<Rightarrow> json" where
  "block_json (TextBlock t) =
     JObj ((lit ''type'', JStr (lit ''text'')) #
           (case t of None \<Rightarrow> [] | Some j \<Rightarrow> [(lit ''text'', j)]))"
| "block_json (ToolUseBlock i n inp) =
     JObj [(lit ''type'', JStr (lit ''tool_use'')), (lit ''id'', JStr i),
           (lit ''name'', JStr n), (lit ''input'', inp)]"
| "block_json (ToolResultBlock i c) =
     JObj ((lit ''type'', JStr (lit ''tool_result'')) # (lit ''tool_use_id'', JStr i) #
           (case c of None \<Rightarrow> [] | Some j \<Rightarrow> [(lit ''content'', j)]))"
| "block_json (OtherBlock j) = j"
| "block_json NullBlock = JNull"

text \<open>The three \<open>forEach\<close> iterations over the content parts, with their accumulators.\<close>

fun assistant_parts ::
  "(json \<Rightarrow> jsstring) \<Rightarrow> content_block list \<Rightarrow> jsstring \<Rightarrow> tool_call list
     \<Rightarrow> js_error + (jsstring \<times> tool_call list)" where
  "assistant_parts stringify [] textContent toolCalls = Inr (textContent, toolCalls)"
| "assistant_parts stringify (NullBlock # ps) textContent toolCalls = Inl null_type_error"
| "assistant_parts stringify (TextBlock t # ps) textContent toolCalls =
     assistant_parts stringify ps (textContent @ text_of stringify t @ separator) toolCalls"
| "assistant_parts stringify (ToolUseBlock i n inp # ps) textContent toolCalls =
     assistant_parts stringify ps textContent
       (toolCalls @ [\<lparr>call_id = i, call_type = lit ''function'', function_name = n,
                      function_arguments = stringify inp\<rparr>])"
| "assistant_parts stringify (p # ps) textContent toolCalls =
     assistant_parts stringify ps textContent toolCalls"

fun user_parts ::
  "(json \<Rightarrow> jsstring) \<Rightarrow> content_block list \<Rightarrow> jsstring \<Rightarrow> message list
     \<Rightarrow> js_error + (jsstring \<times> message list)" where
  "user_parts stringify [] userText toolMessages = Inr (userText, toolMessages)"
| "user_parts stringify (NullBlock # ps) userText toolMessages = Inl null_type_error"
| "user_parts stringify (TextBlock t # ps) userText toolMessages =
     user_parts stringify ps (userText @ text_of stringify t @ separator) toolMessages"
| "user_parts stringify (ToolResultBlock i c # ps) userText toolMessages =
     user_parts stringify ps userText
       (toolMessages @ [\<lparr>role = lit ''tool'', content = tool_content stringify c,
                         tool_calls = None, tool_call_id = Some i\<rparr>])"
| "user_parts stringify (p # ps) userText toolMessages =
     user_parts stringify ps userText toolMessages"

fun other_parts ::
  "(json \<Rightarrow> jsstring) \<Rightarrow> content_block list \<Rightarrow> jsstring \<Rightarrow> js_error + jsstring" where
  "other_parts stringify [] combined = Inr combined"
| "other_parts stringify (NullBlock # ps) combined = Inl null_type_error"
| "other_parts stringify (TextBlock t # ps) combined =
     other_parts stringify ps (combined @ text_of stringify t @ separator)"
| "other_parts stringify (p # ps) combined =
     other_parts stringify ps (combined @ stringify (block_json p) @ separator)"

text \<open>The callback of \<open>messages.flatMap\<close>: the target messages of one source message.\<close>

definition translate_message ::
  "(json \<Rightarrow> jsstring) \<Rightarrow> source_message \<Rightarrow> js_error + message list" where
  "translate_message stringify anthropicMessage =
     (case src_content anthropicMessage of
        ContentString s \<Rightarrow>
          Inr [\<lparr>role = src_role anthropicMessage, content = CString s,
                 tool_calls = None, tool_call_id = None\<rparr>]
      | ContentOther \<Rightarrow> Inr []
      | ContentArray parts \<Rightarrow>
          if src_role anthropicMessage = lit ''assistant'' then
            (case assistant_parts stringify parts [] [] of
               Inl e \<Rightarrow> Inl e
             | Inr (textContent, toolCalls) \<Rightarrow>
                 (let trimmed = trim textContent;
                      assistantMessage =
                        \<lparr>role = lit ''assistant'',
                         content = (if length trimmed > 0 then CString trimmed else CNull),
                         tool_calls = (if length toolCalls > 0 then Some toolCalls else None),
                         tool_call_id = None\<rparr>
                  in if truthy_content (content assistantMessage) \<or>
                        (case tool_calls assistantMessage of None \<Rightarrow> False
                         | Some tcs \<Rightarrow> length tcs > 0)
                     then Inr [assistantMessage] else Inr []))
          else if src_role anthropicMessage = lit ''user'' then
            (case user_parts stringify parts [] [] of
               Inl e \<Rightarrow> Inl e
             | Inr (userText, toolMessages) \<Rightarrow>
                 (let trimmed = trim userText
                  in Inr ((if length trimmed > 0
                           then [\<lparr>role = lit ''user'', content = CString trimmed,
                                   tool_calls = None, tool_call_id = None\<rparr>]
                           else []) @ toolMessages)))
          else
            (case other_parts stringify parts [] of
               Inl e \<Rightarrow> Inl e
             | Inr combined \<Rightarrow>
                 (let trimmed = trim combined
                  in if length trimmed > 0
                     then Inr [\<lparr>role = src_role anthropicMessage, content = CString trimmed,
                                  tool_calls = None, tool_call_id = None\<rparr>]
                     else Inr [])))"

fun translate_messages ::
  "(json \<Rightarrow> jsstring) \<Rightarrow> source_message list \<Rightarrow> js_error + message list" where
  "translate_messages stringify [] = Inr []"
| "translate_messages stringify (m # ms) =
     (case translate_message stringify m of
        Inl e \<Rightarrow> Inl e
      | Inr out \<Rightarrow>
          (case translate_messages stringify ms of
             Inl e \<Rightarrow> Inl e
           | Inr rest \<Rightarrow> Inr (out @ rest)))"

section \<open>Request assembly and the prompt-cache annotation\<close>

text \<open>
  The \<open>system\<close> field is a bare string or an array of entries, of which only \<open>text\<close> is
  read; an absent field is the default \<open>[]\<close>.
\<close>

datatype system_field =
    SystemString jsstring
  | SystemArray "jsstring list"

record source_tool =
  tool_name :: jsstring
  tool_description :: "json option"
  tool_input_schema :: "json option"

record function_tool =
  fn_type :: jsstring
  fn_name :: jsstring
  fn_description :: "json option"
  fn_parameters :: "json option"

text \<open>
  The inbound request body (\<open>max_tokens\<close> and \<open>metadata\<close> are read and never used).
  \<open>in_messages\<close> is \<open>None\<close> when \<open>messages\<close> is not an array, \<open>in_tools\<close> is \<open>None\<close> when
  \<open>tools\<close> is absent.
\<close>

record inbound_body =
  in_model :: jsstring
  in_messages :: "source_message list option"
  in_system :: system_field
  in_temperature :: "json option"
  in_tools :: "source_tool list option"
  in_stream :: bool

record outbound_body =
  out_model :: jsstring
  out_messages :: "message list"
  out_temperature :: "json option"
  out_stream :: bool
  out_tools :: "function_tool list option"

definition system_block :: "jsstring \<Rightarrow> message" where
  "system_block t =
     \<lparr>role = lit ''system'',
      content = CBlocks [\<lparr>block_type = lit ''text'', block_text = t,
                           block_cache_control = Some Ephemeral\<rparr>],
      tool_calls = None, tool_call_id = None\<rparr>"

fun systemMessages :: "system_field \<Rightarrow> message list" where
  "systemMessages (SystemArray items) = map system_block items"
| "systemMessages (SystemString s) = [system_block s]"

definition convert_tools :: "source_tool list \<Rightarrow> function_tool list" where
  "convert_tools tools =
     map (\<lambda>item. \<lparr>fn_type = lit ''function'', fn_name = tool_name item,
                    fn_description = tool_description item,
                    fn_parameters = tool_input_schema item\<rparr>)
       (filter (\<lambda>tool. tool_name tool \<noteq> lit ''StickerRequest'') tools)"

text \<open>\<open>openAIMessages\<close> and \<open>validatedOpenAIMessages\<close>.\<close>

definition openAIMessages ::
  "(json \<Rightarrow> jsstring) \<Rightarrow> source_message list option \<Rightarrow> js_error + message list" where
  "openAIMessages stringify messages =
     (case messages of None \<Rightarrow> Inr [] | Some ms \<Rightarrow> translate_messages stringify ms)"

text \<open>
  The annotation of the last message: a string content is rewrapped as one marked text
  block; in an array content the last block is marked if it exists and its type is
  \<open>text\<close>; any other content is left alone.
\<close>

definition mark_last_message :: "message \<Rightarrow> message" where
  "mark_last_message lastMessage =
     (case content lastMessage of
        CString s \<Rightarrow>
          lastMessage\<lparr>content := CBlocks [\<lparr>block_type = lit ''text'', block_text = s,
                                             block_cache_control = Some Ephemeral\<rparr>]\<rparr>
      | CBlocks bs \<Rightarrow>
          (if bs \<noteq> [] \<and> block_type (last bs) = lit ''text''
           then lastMessage\<lparr>content :=
                  CBlocks (butlast bs @ [(last bs)\<lparr>block_cache_control := Some Ephemeral\<rparr>])\<rparr>
           else lastMessage)
      | _ \<Rightarrow> lastMessage)"

definition add_cache_control :: "message list \<Rightarrow> message list" where
  "add_cache_control msgs =
     (if length msgs > 0 then butlast msgs @ [mark_last_message (last msgs)] else msgs)"

text \<open>The body of the \<open>try\<close> block of \<open>formatRequest\<close>: the new request body, or the error thrown.\<close>

definition build_request :: "(json \<Rightarrow> jsstring) \<Rightarrow> inbound_body \<Rightarrow> js_error + outbound_body" where
  "build_request stringify b =
     (case openAIMessages stringify (in_messages b) of
        Inl e \<Rightarrow> Inl e
      | Inr translated \<Rightarrow>
          Inr \<lparr>out_model = in_model b,
               out_messages =
                 add_cache_control (systemMessages (in_system b) @ validateOpenAIToolCalls translated),
               out_temperature = in_temperature b,
               out_stream = in_stream b,
               out_tools = map_option convert_tools (in_tools b)\<rparr>)"

section \<open>The response writer and the error chunk\<close>

text \<open>
  \<open>streamOpenAIResponse\<close> is an external collaborator: the model records each call to it
  with the completion, the model name and the request body it is handed.
\<close>

record choice =
  choice_index :: nat
  delta_content :: jsstring
  finish_reason :: jsstring

record chunk =
  chunk_id :: jsstring
  chunk_created :: nat
  chunk_model :: jsstring
  chunk_object :: jsstring
  chunk_choices :: "choice list"

datatype completion =
    ChunkSequence "chunk list"
  | DecodedStream "json list"
  | BrokenStream js_error
  | ResponseObject json

datatype request_body = Inbound inbound_body | Outbound outbound_body

fun body_model :: "request_body \<Rightarrow> jsstring" where
  "body_model (Inbound b) = in_model b"
| "body_model (Outbound b) = out_model b"

fun body_stream :: "request_body \<Rightarrow> bool" where
  "body_stream (Inbound b) = in_stream b"
| "body_stream (Outbound b) = out_stream b"

record writer_call =
  call_completion :: completion
  call_model :: jsstring
  call_body :: request_body

text \<open>The decimal digits of a number, as a template literal prints it.\<close>

fun decimal :: "nat \<Rightarrow> jsstring" where
  "decimal n = (if n < 10 then [48 + n] else decimal (n div 10) @ [48 + n mod 10])"

text \<open>
  The chunk the \<open>catch\<close> block of \<open>formatRequest\<close> yields; \<open>now_id\<close> and \<open>now_created\<close> are
  the two readings of \<open>Date.now()\<close>, in milliseconds.
\<close>

definition error_chunk :: "nat \<Rightarrow> nat \<Rightarrow> jsstring \<Rightarrow> js_error \<Rightarrow> chunk" where
  "error_chunk now_id now_created m e =
     (case e of JsError msg \<Rightarrow>
        \<lparr>chunk_id = lit ''error_'' @ decimal now_id,
         chunk_created = now_created div 1000,
         chunk_model = m,
         chunk_object = lit ''chat.completion.chunk'',
         chunk_choices = [\<lparr>choice_index = 0, delta_content = lit ''Error: '' @ msg,
                            finish_reason = lit ''stop''\<rparr>]\<rparr>)"

text \<open>
  \<open>formatRequest\<close>: the request body it leaves in \<open>req.body\<close> and the calls it makes to the
  writer. Either way it ends with \<open>next()\<close>, so the route handler runs after it.
\<close>

definition formatRequest ::
  "(json \<Rightarrow> jsstring) \<Rightarrow> nat \<Rightarrow> nat \<Rightarrow> inbound_body \<Rightarrow> request_body \<times> writer_call list" where
  "formatRequest stringify now_id now_created b =
     (case build_request stringify b of
        Inr data \<Rightarrow> (Outbound data, [])
      | Inl e \<Rightarrow>
          (Inbound b,
           [\<lparr>call_completion = ChunkSequence [error_chunk now_id now_created (in_model b) e],
             call_model = in_model b, call_body = Inbound b\<rparr>]))"

section \<open>The streaming response decoder\<close>

subsection \<open>TextDecoder\<close>

text \<open>
  \<open>new TextDecoder()\<close> with \<open>decode(value, {stream: true})\<close> is the UTF-8 decoder of
  the WHATWG Encoding Standard in replacement mode: an ill-formed sequence yields U+FFFD,
  an incomplete sequence at the end of a chunk stays in the decoder's state, and the first
  scalar value of the stream is dropped if it is the byte order mark. The result is a
  JavaScript string, so a scalar value above U+FFFF becomes a surrogate pair.
\<close>

type_synonym byte = "8 word"

record utf8_state =
  code_point :: nat
  bytes_seen :: nat
  bytes_needed :: nat
  lower_boundary :: byte
  upper_boundary :: byte

definition utf8_initial :: utf8_state where
  "utf8_initial =
     \<lparr>code_point = 0, bytes_seen = 0, bytes_needed = 0,
      lower_boundary = 0x80, upper_boundary = 0xBF\<rparr>"

text \<open>A byte read while no sequence is open: the new state and the scalar values emitted.\<close>

definition utf8_lead :: "byte \<Rightarrow> utf8_state \<times> nat list" where
  "utf8_lead b =
     (if b \<le> 0x7F then (utf8_initial, [unat b])
      else if 0xC2 \<le> b \<and> b \<le> 0xDF then
        (utf8_initial\<lparr>bytes_needed := 1, code_point := unat b mod 32\<rparr>, [])
      else if 0xE0 \<le> b \<and> b \<le> 0xEF then
        (utf8_initial\<lparr>lower_boundary := (if b = 0xE0 then 0xA0 else 0x80),
                       upper_boundary := (if b = 0xED then 0x9F else 0xBF),
                       bytes_needed := 2, code_point := unat b mod 16\<rparr>, [])
      else if 0xF0 \<le> b \<and> b \<le> 0xF4 then
        (utf8_initial\<lparr>lower_boundary := (if b = 0xF0 then 0x90 else 0x80),
                       upper_boundary := (if b = 0xF4 then 0x8F else 0xBF),
                       bytes_needed := 3, code_point := unat b mod 8\<rparr>, [])
      else (utf8_initial, [0xFFFD]))"

text \<open>
  One byte through the decoder. A byte outside the boundaries of an open sequence ends
  the sequence with U+FFFD and is read again as a lead byte.
\<close>

definition utf8_step :: "utf8_state \<Rightarrow> byte \<Rightarrow> utf8_state \<times> nat list" where
  "utf8_step s b =
     (if bytes_needed s = 0 then utf8_lead b
      else if b < lower_boundary s \<or> upper_boundary s < b then
        (case utf8_lead b of (s', out) \<Rightarrow> (s', 0xFFFD # out))
      else
        (let cp = code_point s * 64 + unat b mod 64; seen = bytes_seen s + 1
         in if seen \<noteq> bytes_needed s
            then (s\<lparr>lower_boundary := 0x80, upper_boundary := 0xBF,
                     code_point := cp, bytes_seen := seen\<rparr>, [])
            else (utf8_initial, [cp])))"

definition utf16 :: "nat \<Rightarrow> jsstring" where
  "utf16 c =
     (if c < 0x10000 then [c]
      else [0xD800 + (c - 0x10000) div 0x400, 0xDC00 + (c - 0x10000) mod 0x400])"

text \<open>Serialising the scalar values: \<open>seen\<close> is the decoder's BOM-seen flag.\<close>

fun serialize :: "bool \<Rightarrow> nat list \<Rightarrow> bool \<times> jsstring" where
  "serialize seen [] = (seen, [])"
| "serialize seen (c # cs) =
     (if \<not> seen \<and> c = 0xFEFF then serialize True cs
      else (case serialize True cs of (seen', out) \<Rightarrow> (seen', utf16 c @ out)))"

record decoder_state =
  utf8 :: utf8_state
  bom_seen :: bool

definition new_TextDecoder :: decoder_state where
  "new_TextDecoder = \<lparr>utf8 = utf8_initial, bom_seen = False\<rparr>"

text \<open>\<open>decoder.decode(value, {stream: true})\<close>: the decoder afterwards and the text returned.\<close>

fun decode :: "decoder_state \<Rightarrow> byte list \<Rightarrow> decoder_state \<times> jsstring" where
  "decode d [] = (d, [])"
| "decode d (b # bs) =
     (case utf8_step (utf8 d) b of (u, scalars) \<Rightarrow>
        (case serialize (bom_seen d) scalars of (seen, out) \<Rightarrow>
           (case decode \<lparr>utf8 = u, bom_seen = seen\<rparr> bs of (d', rest) \<Rightarrow> (d', out @ rest))))"

subsection \<open>Lines and events\<close>

text \<open>\<open>s.split('\n')\<close>: never empty, and \<open>"".split('\n')\<close> is \<open>[""]\<close>.\<close>

fun split_nl :: "jsstring \<Rightarrow> jsstring list" where
  "split_nl [] = [[]]"
| "split_nl (c # cs) =
     (if c = 10 then [] # split_nl cs
      else (case split_nl cs of [] \<Rightarrow> [[c]] | l # ls \<Rightarrow> (c # l) # ls))"

text \<open>
  The body of each \<open>for (const line of lines)\<close> iteration: the events one line yields.
  \<open>parse\<close> is \<open>JSON.parse\<close>, with \<open>None\<close> where it throws.
\<close>

definition process_line :: "(jsstring \<Rightarrow> json option) \<Rightarrow> jsstring \<Rightarrow> json list" where
  "process_line parse line =
     (if trim line \<noteq> [] \<and> take 6 line = lit ''data: '' then
        (let data = trim (drop 6 line)
         in if data = lit ''[DONE]'' then []
            else (case parse data of Some parsed \<Rightarrow> [parsed] | None \<Rightarrow> []))
      else [])"

text \<open>
  The read loop over the chunks the reader delivers before it reports \<open>done\<close>: the events
  yielded, in order.
\<close>

fun read_loop ::
  "(jsstring \<Rightarrow> json option) \<Rightarrow> decoder_state \<Rightarrow> jsstring \<Rightarrow> byte list list \<Rightarrow> json list" where
  "read_loop parse decoder buffer [] =
     (if trim buffer \<noteq> [] then concat (map (process_line parse) (split_nl buffer)) else [])"
| "read_loop parse decoder buffer (v # reads) =
     (case decode decoder v of (decoder', chunk) \<Rightarrow>
        (let lines = split_nl (buffer @ chunk)
         in concat (map (process_line parse) (butlast lines))
            @ read_loop parse decoder' (last lines) reads))"

definition sse_events :: "(jsstring \<Rightarrow> json option) \<Rightarrow> byte list list \<Rightarrow> json list" where
  "sse_events parse reads = read_loop parse new_TextDecoder [] reads"

text \<open>
  The line processing as the specification words it, for comparison: trim the line; strip
  the prefix and trim again if the trimmed line starts with it; skip the sentinel; parse
  whatever remains.
\<close>

definition spec_process_line :: "(jsstring \<Rightarrow> json option) \<Rightarrow> jsstring \<Rightarrow> json list" where
  "spec_process_line parse line =
     (let trimmed = trim line;
          payload = (if take 6 trimmed = lit ''data: '' then trim (drop 6 trimmed) else trimmed)
      in if payload = lit ''[DONE]'' then []
         else (case parse payload of Some parsed \<Rightarrow> [parsed] | None \<Rightarrow> []))"

section \<open>The provider registry and the request dispatcher\<close>

record ModelProvider =
  name :: jsstring
  api_base_url :: jsstring
  api_key :: jsstring
  models :: "jsstring list"

text \<open>
  \<open>Providers\<close> is a JavaScript \<open>Map\<close>: \<open>set\<close> on a key already present replaces the value
  in place, a new key goes to the end, and \<open>values()\<close> iterates in that order.
\<close>

type_synonym registry = "(jsstring \<times> ModelProvider) list"

fun Map_set :: "registry \<Rightarrow> jsstring \<Rightarrow> ModelProvider \<Rightarrow> registry" where
  "Map_set [] k v = [(k, v)]"
| "Map_set ((k', v') # kvs) k v =
     (if k' = k then (k, v) # kvs else (k', v') # Map_set kvs k v)"

definition Map_get :: "registry \<Rightarrow> jsstring \<Rightarrow> ModelProvider option" where
  "Map_get kvs k = map_of kvs k"

text \<open>
  The part of the configuration the registry is built from. A string setting is \<open>None\<close>
  when absent; an empty string is falsy as well. \<open>cfg_Providers\<close> is \<open>None\<close> when
  \<open>config.Providers\<close> is not an array.
\<close>

record config =
  cfg_Providers :: "ModelProvider list option"
  OPENAI_API_KEY :: "jsstring option"
  OPENAI_BASE_URL :: "jsstring option"
  OPENAI_MODEL :: "jsstring option"

fun truthy_string :: "jsstring option \<Rightarrow> bool" where
  "truthy_string None = False"
| "truthy_string (Some s) = (s \<noteq> [])"

definition string_value :: "jsstring option \<Rightarrow> jsstring" where
  "string_value v = (case v of None \<Rightarrow> [] | Some s \<Rightarrow> s)"

text \<open>The registry \<open>run\<close> builds: the configured providers, then the \<open>default\<close> entry.\<close>

definition build_Providers :: "config \<Rightarrow> registry" where
  "build_Providers c =
     (let listed = foldl (\<lambda>reg provider. Map_set reg (name provider) provider) []
                     (case cfg_Providers c of None \<Rightarrow> [] | Some ps \<Rightarrow> ps)
      in if truthy_string (OPENAI_API_KEY c) \<and> truthy_string (OPENAI_BASE_URL c) \<and>
            truthy_string (OPENAI_MODEL c)
         then Map_set listed (lit ''default'')
                \<lparr>name = lit ''default'', api_base_url = string_value (OPENAI_BASE_URL c),
                 api_key = string_value (OPENAI_API_KEY c),
                 models = [string_value (OPENAI_MODEL c)]\<rparr>
         else if length listed > 0 then Map_set listed (lit ''default'') (snd (hd listed))
         else listed)"

subsection \<open>The route handler\<close>

text \<open>
  What \<open>fetch\<close> gives back: it throws, or it returns a response with its status, the
  chunks its body reader will deliver (\<open>None\<close> when the response has no body) and the value
  of \<open>response.json()\<close> (\<open>Inl\<close> the error when that rejects).
\<close>

record response =
  response_ok :: bool
  response_status :: nat
  response_reads :: "byte list list option"
  response_json :: "js_error + json"

datatype fetch_result = FetchThrows js_error | FetchReturns response

record handler_outcome =
  writer_calls :: "writer_call list"
  logged_error :: "js_error option"

text \<open>\<open>req.provider || "default"\<close>\<close>

definition provider_or_default :: "jsstring option \<Rightarrow> jsstring" where
  "provider_or_default p = (if truthy_string p then string_value p else lit ''default'')"

text \<open>
  The handler of \<open>POST /v1/messages\<close>. Every exception of its \<open>try\<close> block ends in the
  \<open>catch\<close> block, which logs the error and does nothing else.
\<close>

definition post_messages ::
  "registry \<Rightarrow> (jsstring \<Rightarrow> jsstring \<Rightarrow> request_body \<Rightarrow> fetch_result) \<Rightarrow> (jsstring \<Rightarrow> json option)
     \<Rightarrow> jsstring option \<Rightarrow> request_body \<Rightarrow> handler_outcome" where
  "post_messages Providers fetch parse req_provider req_body =
     (case Map_get Providers (provider_or_default req_provider) of
        None \<Rightarrow>
          \<lparr>writer_calls = [],
           logged_error = Some (JsError (lit ''Provider '' @ provider_or_default req_provider
                                          @ lit '' not found''))\<rparr>
      | Some providerConfig \<Rightarrow>
          (case fetch (api_base_url providerConfig @ lit ''/v1/chat/completions'')
                  (api_key providerConfig) req_body of
             FetchThrows e \<Rightarrow> \<lparr>writer_calls = [], logged_error = Some e\<rparr>
           | FetchReturns r \<Rightarrow>
               if \<not> response_ok r then
                 \<lparr>writer_calls = [],
                  logged_error = Some (JsError (lit ''HTTP error! status: ''
                                                 @ decimal (response_status r)))\<rparr>
               else if body_stream req_body then
                 \<lparr>writer_calls =
                    [\<lparr>call_completion =
                         (case response_reads r of
                            None \<Rightarrow> BrokenStream (JsError (lit ''No response body reader available''))
                          | Some reads \<Rightarrow> DecodedStream (sse_events parse reads)),
                       call_model = body_model req_body, call_body = req_body\<rparr>],
                  logged_error = None\<rparr>
               else
                 (case response_json r of
                    Inl e \<Rightarrow> \<lparr>writer_calls = [], logged_error = Some e\<rparr>
                  | Inr j \<Rightarrow>
                      \<lparr>writer_calls =
                         [\<lparr>call_completion = ResponseObject j,
                            call_model = body_model req_body, call_body = req_body\<rparr>],
                       logged_error = None\<rparr>)))"

text \<open>
  One request through \<open>formatRequest\<close> and then the handler: all calls to the writer, in
  order.
\<close>

definition serve_request ::
  "registry \<Rightarrow> (jsstring \<Rightarrow> jsstring \<Rightarrow> request_body \<Rightarrow> fetch_result) \<Rightarrow> (jsstring \<Rightarrow> json option)
     \<Rightarrow> (json \<Rightarrow> jsstring) \<Rightarrow> nat \<Rightarrow> nat \<Rightarrow> jsstring option \<Rightarrow> inbound_body \<Rightarrow> writer_call list" where
  "serve_request Providers fetch parse stringify now_id now_created req_provider b =
     (case formatRequest stringify now_id now_created b of
        (req_body, calls) \<Rightarrow>
          calls @ writer_calls (post_messages Providers fetch parse req_provider req_body))"

subsection \<open>The pooled client cache\<close>

record OpenAI =
  client_id :: nat
  baseURL :: jsstring
  apiKey :: jsstring

text \<open>
  Modelled from the spec: the class \<open>LRUCache\<close> of the package \<open>lru-cache\<close>, which is not
  part of the sources. It is a bounded associative cache of capacity \<open>max\<close> whose entries
  live \<open>ttl\<close> milliseconds from insertion; expiry is evaluated at lookup; a lookup that
  hits makes the entry the most recently used without renewing its time; an insertion at
  capacity evicts the least recently used entry. The list holds the most recently used
  entry first.
\<close>

record cache_entry =
  entry_key :: jsstring
  entry_value :: OpenAI
  entry_start :: nat

type_synonym LRUCache = "cache_entry list"

definition cache_max :: nat where
  "cache_max = 10"

definition cache_ttl :: nat where
  "cache_ttl = 2 * 60 * 60 * 1000"

definition is_stale :: "nat \<Rightarrow> cache_entry \<Rightarrow> bool" where
  "is_stale now e = (now - entry_start e > cache_ttl)"

text \<open>
  Modelled from the spec: \<open>LRUCache.get\<close>, missing from the sources. A live entry is
  returned and becomes the most recently used; an expired one is removed and nothing is
  returned.
\<close>

definition cache_get :: "nat \<Rightarrow> LRUCache \<Rightarrow> jsstring \<Rightarrow> OpenAI option \<times> LRUCache" where
  "cache_get now cache k =
     (case find (\<lambda>e. entry_key e = k) cache of
        None \<Rightarrow> (None, cache)
      | Some e \<Rightarrow>
          if is_stale now e then (None, filter (\<lambda>e'. entry_key e' \<noteq> k) cache)
          else (Some (entry_value e), e # filter (\<lambda>e'. entry_key e' \<noteq> k) cache))"

text \<open>
  Modelled from the spec: \<open>LRUCache.set\<close>, missing from the sources. The new entry
  replaces any entry of the same key and becomes the most recently used; if the cache is
  at capacity, the least recently used entry is evicted.
\<close>

definition cache_set :: "nat \<Rightarrow> LRUCache \<Rightarrow> jsstring \<Rightarrow> OpenAI \<Rightarrow> LRUCache" where
  "cache_set now cache k v =
     (let others = filter (\<lambda>e'. entry_key e' \<noteq> k) cache;
          kept = (if length others \<ge> cache_max then butlast others else others)
      in \<lparr>entry_key = k, entry_value = v, entry_start = now\<rparr> # kept)"

text \<open>
  \<open>getProviderInstance\<close>, with the state it closes over made explicit: the cache and the
  number of clients constructed so far, which names the next client object.
\<close>

record pool =
  providerCache :: LRUCache
  constructed :: nat

definition getProviderInstance ::
  "registry \<Rightarrow> nat \<Rightarrow> pool \<Rightarrow> jsstring \<Rightarrow> js_error + (OpenAI \<times> pool)" where
  "getProviderInstance Providers now p providerName =
     (case Map_get Providers providerName of
        None \<Rightarrow> Inl (JsError (lit ''Provider '' @ providerName @ lit '' not found''))
      | Some provider \<Rightarrow>
          (case cache_get now (providerCache p) (name provider) of
             (Some openai, cache') \<Rightarrow> Inr (openai, p\<lparr>providerCache := cache'\<rparr>)
           | (None, cache') \<Rightarrow>
               (let openai = \<lparr>client_id = constructed p, baseURL = api_base_url provider,
                               apiKey = api_key provider\<rparr>
                in Inr (openai,
                        \<lparr>providerCache = cache_set now cache' (name provider) openai,
                         constructed = Suc (constructed p)\<rparr>))))"

section \<open>Notions used to state and prove the properties\<close>

subsection \<open>The validator\<close>

text \<open>
  The nearest message before a position that is not a tool message, reached by skipping
  tool messages only; \<open>owner_answers\<close> says that it is an assistant message with tool calls
  one of which has the id a tool message answers.
\<close>

definition nearest_non_tool :: "message list \<Rightarrow> message option" where
  "nearest_non_tool pre = (case dropWhile is_tool (rev pre) of [] \<Rightarrow> None | m # _ \<Rightarrow> Some m)"

definition owner_answers :: "message option \<Rightarrow> message \<Rightarrow> bool" where
  "owner_answers ow cur =
     (case ow of None \<Rightarrow> False
      | Some a \<Rightarrow> is_assistant_with_calls a \<and> list_ex (\<lambda>toolCall. answers cur toolCall) (calls_of a))"

text \<open>
  What the loop pushes for a message that is not a tool message, given the run of tool
  messages right after it; and the loop itself with the nearest message that is not a tool
  message passed along instead of found by index.
\<close>

definition emit_head :: "message \<Rightarrow> message list \<Rightarrow> message list" where
  "emit_head h ts =
     (if is_assistant_with_calls h then
        (let valid = filter (\<lambda>toolCall. list_ex (\<lambda>toolMsg. answers toolMsg toolCall) ts) (calls_of h);
             updated = (if length valid > 0 then h\<lparr>tool_calls := Some valid\<rparr>
                        else h\<lparr>tool_calls := None\<rparr>)
         in if truthy_content (content updated) \<or> tool_calls updated \<noteq> None then [updated] else [])
      else [h])"

fun vgo :: "message option \<Rightarrow> message list \<Rightarrow> message list" where
  "vgo ow [] = []"
| "vgo ow (m # ms) =
     (if is_tool m then (if owner_answers ow m then [m] else []) @ vgo ow ms
      else emit_head m (takeWhile is_tool ms) @ vgo (Some m) ms)"

text \<open>The output for a message that is not a tool message together with its run of tool messages.\<close>

definition seg_out :: "message \<Rightarrow> message list \<Rightarrow> message list" where
  "seg_out h ts = emit_head h ts @ filter (owner_answers (Some h)) ts"

subsection \<open>Example values\<close>

text \<open>Small concrete values at which the theorems below are instantiated.\<close>

definition example_call :: tool_call where
  "example_call = \<lparr>call_id = lit ''t1'', call_type = lit ''function'',
                    function_name = lit ''f'', function_arguments = lit ''{}''\<rparr>"

definition example_assistant :: message where
  "example_assistant = \<lparr>role = lit ''assistant'', content = CNull,
                         tool_calls = Some [example_call], tool_call_id = None\<rparr>"

definition example_tool :: message where
  "example_tool = \<lparr>role = lit ''tool'', content = CString (lit ''ok''),
                    tool_calls = None, tool_call_id = Some (lit ''t1'')\<rparr>"

definition example_user :: message where
  "example_user = \<lparr>role = lit ''user'', content = CString (lit ''Hi''),
                    tool_calls = None, tool_call_id = None\<rparr>"

subsection \<open>The translator\<close>

text \<open>An assistant message whose content is empty or absent and which has no tool calls.\<close>

definition empty_assistant :: "message \<Rightarrow> bool" where
  "empty_assistant m =
     (role m = lit ''assistant'' \<and> \<not> truthy_content (content m) \<and> tool_calls m = None)"

text \<open>A source assistant message whose content is the empty string.\<close>

definition empty_string_assistant :: "source_message \<Rightarrow> bool" where
  "empty_string_assistant m = (src_role m = lit ''assistant'' \<and> src_content m = ContentString [])"

definition example_empty_source :: source_message where
  "example_empty_source = \<lparr>src_role = lit ''assistant'', src_content = ContentString []\<rparr>"

subsection \<open>Cache-control markers\<close>

text \<open>
  The content blocks of a message (none when its content is not an array), and for each
  of them whether it carries the ephemeral cache-control marker.
\<close>

definition blocks_of :: "message \<Rightarrow> text_block list" where
  "blocks_of m = (case content m of CBlocks bs \<Rightarrow> bs | _ \<Rightarrow> [])"

definition marks_of :: "message \<Rightarrow> bool list" where
  "marks_of m = map (\<lambda>b. block_cache_control b = Some Ephemeral) (blocks_of m)"

text \<open>
  A request whose last target message is a tool message without content: an assistant
  message with one tool-use block, answered by a tool-result block that has no \<open>content\<close>
  field.
\<close>

definition example_tool_exchange :: inbound_body where
  "example_tool_exchange =
     \<lparr>in_model = lit ''m'',
      in_messages = Some
        [\<lparr>src_role = lit ''assistant'',
          src_content = ContentArray [ToolUseBlock (lit ''t1'') (lit ''f'') (JObj [])]\<rparr>,
         \<lparr>src_role = lit ''user'',
          src_content = ContentArray [ToolResultBlock (lit ''t1'') None]\<rparr>],
      in_system = SystemArray [],
      in_temperature = None, in_tools = None, in_stream = False\<rparr>"

text \<open>The request of the concrete scenario: one user message with the text block \<open>Hi\<close>.\<close>

definition example_hi :: inbound_body where
  "example_hi =
     \<lparr>in_model = lit ''m'',
      in_messages = Some
        [\<lparr>src_role = lit ''user'',
          src_content = ContentArray [TextBlock (Some (JStr (lit ''Hi'')))]\<rparr>],
      in_system = SystemString (lit ''You are helpful''),
      in_temperature = None, in_tools = None, in_stream = False\<rparr>"

subsection \<open>The decoder\<close>

text \<open>The text a decoder returns over a sequence of reads, call after call.\<close>

fun decode_reads :: "decoder_state \<Rightarrow> byte list list \<Rightarrow> jsstring" where
  "decode_reads d [] = []"
| "decode_reads d (v # vs) = (case decode d v of (d', chunk) \<Rightarrow> chunk @ decode_reads d' vs)"

text \<open>
  The bytes of the line \<open>data: {"a":1}\<close>, its payload, the object the payload stands
  for, and a \<open>JSON.parse\<close> cut down to that one payload (it rejects everything else,
  which the real one does not), at which theorems about any \<open>parse\<close> are instantiated.
\<close>

definition data_line :: "byte list" where
  "data_line = [100, 97, 116, 97, 58, 32, 123, 34, 97, 34, 58, 49, 125]"

definition payload_a1 :: jsstring where
  "payload_a1 = [123, 34, 97, 34, 58, 49, 125]"

definition object_a1 :: json where
  "object_a1 = JObj [(lit ''a'', JNum 1)]"

definition example_parse :: "jsstring \<Rightarrow> json option" where
  "example_parse s = (if s = payload_a1 then Some object_a1 else None)"

subsection \<open>Dispatch\<close>

text \<open>
  A configuration with no provider at all, one with a single listed provider, an upstream
  that answers with status 500, one that answers with status 200 and an empty body, and
  a request whose content array holds a \<open>null\<close> entry.
\<close>

definition empty_config :: config where
  "empty_config = \<lparr>cfg_Providers = None, OPENAI_API_KEY = None, OPENAI_BASE_URL = None,
                    OPENAI_MODEL = None\<rparr>"

definition example_provider :: ModelProvider where
  "example_provider = \<lparr>name = lit ''p1'', api_base_url = lit ''https://example.test'',
                        api_key = lit ''k'', models = [lit ''m'']\<rparr>"

definition one_provider_config :: config where
  "one_provider_config = \<lparr>cfg_Providers = Some [example_provider], OPENAI_API_KEY = None,
                           OPENAI_BASE_URL = None, OPENAI_MODEL = None\<rparr>"

definition fetch_500 :: "jsstring \<Rightarrow> jsstring \<Rightarrow> request_body \<Rightarrow> fetch_result" where
  "fetch_500 url key b =
     FetchReturns \<lparr>response_ok = False, response_status = 500, response_reads = Some [],
                    response_json = Inr JNull\<rparr>"

definition fetch_200 :: "jsstring \<Rightarrow> jsstring \<Rightarrow> request_body \<Rightarrow> fetch_result" where
  "fetch_200 url key b =
     FetchReturns \<lparr>response_ok = True, response_status = 200, response_reads = Some [],
                    response_json = Inr JNull\<rparr>"

definition example_null_entry :: inbound_body where
  "example_null_entry =
     \<lparr>in_model = lit ''m'',
      in_messages = Some [\<lparr>src_role = lit ''user'', src_content = ContentArray [NullBlock]\<rparr>],
      in_system = SystemArray [],
      in_temperature = None, in_tools = None, in_stream = False\<rparr>"

subsection \<open>The client cache\<close>

text \<open>
  The keys of a cache, most recently used first, and the shape every reachable cache has:
  one entry per key and no more than \<open>cache_max\<close> entries.
\<close>

definition cache_keys :: "LRUCache \<Rightarrow> jsstring list" where
  "cache_keys cache = map entry_key cache"









text \<open>The first client of a fresh pool, constructed for \<open>example_provider\<close> at time 0.\<close>

definition first_client :: OpenAI where
  "first_client = \<lparr>client_id = 0, baseURL = lit ''https://example.test'', apiKey = lit ''k''\<rparr>"

definition first_entry :: cache_entry where
  "first_entry = \<lparr>entry_key = lit ''p1'', entry_value = first_client, entry_start = 0\<rparr>"

section \<open>The validator: idempotence and tool pairing\<close>

lemma nearest_non_tool_snoc:
  "nearest_non_tool (pre @ [p]) = (if is_tool p then nearest_non_tool pre else Some p)"
  by (simp add: nearest_non_tool_def)

lemma not_tool_and_assistant: "is_assistant_with_calls m \<Longrightarrow> \<not> is_tool m"
  by (auto simp: is_assistant_with_calls_def is_tool_def lit_def)

lemma scan_back_nearest:
  "n \<le> length messages \<Longrightarrow>
   scan_back messages n cur = owner_answers (nearest_non_tool (take n messages)) cur"
proof (induction n)
  case 0
  then show ?case by (simp add: owner_answers_def nearest_non_tool_def)
next
  case (Suc k)
  then have k: "k < length messages" by simp
  have "take (Suc k) messages = take k messages @ [messages ! k]"
    using k by (simp add: take_Suc_conv_app_nth)
  then show ?case using Suc
    by (simp add: nearest_non_tool_snoc owner_answers_def)
qed

lemma hasImmediateToolCall_nearest:
  assumes "i < length messages"
  shows "hasImmediateToolCall messages i =
           owner_answers (nearest_non_tool (take i messages)) (messages ! i)"
proof (cases i)
  case 0
  then show ?thesis
    by (simp add: hasImmediateToolCall_def owner_answers_def nearest_non_tool_def)
next
  case (Suc k)
  then have k: "k < length messages" using assms by simp
  have tk: "take (Suc k) messages = take k messages @ [messages ! k]"
    using k by (simp add: take_Suc_conv_app_nth)
  have sb: "scan_back messages (Suc k) (messages ! i)
             = owner_answers (nearest_non_tool (take (Suc k) messages)) (messages ! i)"
    using scan_back_nearest[of "Suc k" messages] k by simp
  show ?thesis
  proof (cases "is_assistant_with_calls (messages ! k)")
    case True
    then show ?thesis using Suc tk not_tool_and_assistant[OF True]
      by (simp add: hasImmediateToolCall_def nearest_non_tool_snoc owner_answers_def)
  next
    case False
    show ?thesis
    proof (cases "is_tool (messages ! k)")
      case True
      then show ?thesis using Suc False sb
        by (simp add: hasImmediateToolCall_def)
    next
      case nt: False
      then show ?thesis using Suc False tk
        by (simp add: hasImmediateToolCall_def nearest_non_tool_snoc owner_answers_def)
    qed
  qed
qed

lemma validate_at_append:
  "validate_at (pre @ m # ms) (length pre) =
     (if is_tool m then (if owner_answers (nearest_non_tool pre) m then [m] else [])
      else emit_head m (takeWhile is_tool ms))"
proof -
  have h: "hasImmediateToolCall (pre @ m # ms) (length pre)
            = owner_answers (nearest_non_tool pre) m"
    using hasImmediateToolCall_nearest[of "length pre" "pre @ m # ms"] by simp
  show ?thesis
    using not_tool_and_assistant[of m]
    by (auto simp: validate_at_def h emit_head_def validToolCalls_def immediateToolMessages_def Let_def)
qed

lemma validate_vgo:
  "concat (map (validate_at (pre @ ms)) [length pre..<length pre + length ms])
     = vgo (nearest_non_tool pre) ms"
proof (induction ms arbitrary: pre)
  case Nil
  then show ?case by simp
next
  case (Cons m ms)
  have ih: "concat (map (validate_at ((pre @ [m]) @ ms)) [length (pre @ [m])..<length (pre @ [m]) + length ms])
     = vgo (nearest_non_tool (pre @ [m])) ms"
    by (rule Cons.IH)
  have up: "[n..<n + Suc k] = n # [Suc n..<Suc n + k]" for n k :: nat
    by (simp add: upt_conv_Cons)
  show ?case
    using ih up[of "length pre" "length ms"]
    by (simp add: validate_at_append nearest_non_tool_snoc)
qed

lemma validate_is_vgo: "validateOpenAIToolCalls messages = vgo None messages"
  using validate_vgo[of "[]" messages]
  by (simp add: validateOpenAIToolCalls_def nearest_non_tool_def)

lemma takeWhile_all: "list_all P (takeWhile P xs)"
  by (induction xs) auto

lemma vgo_tools:
  "list_all is_tool ts \<Longrightarrow> vgo ow (ts @ rest) = filter (owner_answers ow) ts @ vgo ow rest"
  by (induction ts) auto

lemma vgo_head_indep:
  "rest = [] \<or> \<not> is_tool (hd rest) \<Longrightarrow> vgo ow rest = vgo ow' rest"
  by (cases rest) auto

lemma dropWhile_tool_head: "dropWhile is_tool ms = [] \<or> \<not> is_tool (hd (dropWhile is_tool ms))"
  by (metis hd_dropWhile)

lemma vgo_segment:
  assumes "\<not> is_tool h"
  shows "vgo ow (h # ms) = seg_out h (takeWhile is_tool ms) @ vgo ow' (dropWhile is_tool ms)"
proof -
  have "vgo (Some h) ms = vgo (Some h) (takeWhile is_tool ms @ dropWhile is_tool ms)" by simp
  also have "\<dots> = filter (owner_answers (Some h)) (takeWhile is_tool ms)
                    @ vgo (Some h) (dropWhile is_tool ms)"
    by (rule vgo_tools) (rule takeWhile_all)
  also have "vgo (Some h) (dropWhile is_tool ms) = vgo ow' (dropWhile is_tool ms)"
    by (rule vgo_head_indep) (rule dropWhile_tool_head)
  finally show ?thesis using assms by (simp add: seg_out_def)
qed

lemma is_tool_update [simp]: "is_tool (m\<lparr>tool_calls := x\<rparr>) = is_tool m"
  by (simp add: is_tool_def)

lemma seg_out_stable:
  assumes "\<not> is_tool h" "list_all is_tool ts"
  shows "seg_out h ts = [] \<or>
         (\<exists>h' ts'. seg_out h ts = h' # ts' \<and> \<not> is_tool h' \<and> list_all is_tool ts' \<and>
                   seg_out h' ts' = h' # ts')"
proof (cases "is_assistant_with_calls h")
  case False
  then show ?thesis using assms(1)
    by (simp add: seg_out_def emit_head_def owner_answers_def)
next
  case True
  define valid where "valid = filter (\<lambda>toolCall. list_ex (\<lambda>toolMsg. answers toolMsg toolCall) ts) (calls_of h)"
  define ts' where "ts' = filter (owner_answers (Some h)) ts"
  have ts'_tools: "list_all is_tool ts'"
    using assms(2) by (auto simp: ts'_def list_all_iff)
  show ?thesis
  proof (cases "valid = []")
    case True
    have "ts' = []"
    proof (rule ccontr)
      assume "ts' \<noteq> []"
      then obtain t where t: "t \<in> set ts" "owner_answers (Some h) t"
        by (auto simp: ts'_def filter_empty_conv)
      then obtain c where "c \<in> set (calls_of h)" "answers t c"
        by (auto simp: owner_answers_def list_ex_iff)
      with t have "c \<in> set valid" by (auto simp: valid_def list_ex_iff)
      with True show False by simp
    qed
    then show ?thesis
      using True \<open>is_assistant_with_calls h\<close> assms(1)
      by (auto simp: seg_out_def emit_head_def valid_def[symmetric] ts'_def[symmetric]
            is_assistant_with_calls_def owner_answers_def)
  next
    case False
    define h' where "h' = h\<lparr>tool_calls := Some valid\<rparr>"
    have out: "seg_out h ts = h' # ts'"
      using False \<open>is_assistant_with_calls h\<close>
      by (simp add: seg_out_def emit_head_def valid_def[symmetric] ts'_def[symmetric] h'_def)
    have h'a: "is_assistant_with_calls h'" "calls_of h' = valid" "\<not> is_tool h'"
      using \<open>is_assistant_with_calls h\<close> assms(1)
      by (auto simp: h'_def is_assistant_with_calls_def calls_of_def)
    have v: "filter (\<lambda>toolCall. list_ex (\<lambda>toolMsg. answers toolMsg toolCall) ts') valid = valid"
    proof -
      have "list_ex (\<lambda>toolMsg. answers toolMsg c) ts'" if "c \<in> set valid" for c
      proof -
        from that obtain t where "c \<in> set (calls_of h)" "t \<in> set ts" "answers t c"
          by (auto simp: valid_def list_ex_iff)
        then have "t \<in> set ts'"
          using \<open>is_assistant_with_calls h\<close>
          by (auto simp: ts'_def owner_answers_def list_ex_iff)
        with \<open>answers t c\<close> show ?thesis by (auto simp: list_ex_iff)
      qed
      then show ?thesis by (simp add: filter_id_conv)
    qed
    have t: "filter (owner_answers (Some h')) ts' = ts'"
    proof -
      have "owner_answers (Some h') t" if "t \<in> set ts'" for t
      proof -
        from that obtain c where "t \<in> set ts" "c \<in> set (calls_of h)" "answers t c"
          by (auto simp: ts'_def owner_answers_def list_ex_iff)
        then have "c \<in> set valid" by (auto simp: valid_def list_ex_iff)
        with \<open>answers t c\<close> h'a(1,2) show ?thesis
          by (auto simp: owner_answers_def list_ex_iff)
      qed
      then show ?thesis by (simp add: filter_id_conv)
    qed
    have "seg_out h' ts' = h' # ts'"
      using False h'a(1,2) v t
      by (simp add: seg_out_def emit_head_def) (simp add: h'_def)
    with out h'a(3) ts'_tools show ?thesis by blast
  qed
qed

lemma takeWhile_run:
  "list_all P ts \<Longrightarrow> ys = [] \<or> \<not> P (hd ys) \<Longrightarrow> takeWhile P (ts @ ys) = ts"
  by (induction ts) (auto simp: takeWhile_eq_Nil_iff)

lemma dropWhile_run:
  "list_all P ts \<Longrightarrow> ys = [] \<or> \<not> P (hd ys) \<Longrightarrow> dropWhile P (ts @ ys) = ys"
  by (induction ts) (auto simp: dropWhile_eq_self_iff)

lemma vgo_fixed:
  "xs = [] \<or> \<not> is_tool (hd xs) \<Longrightarrow>
   (vgo ow xs = [] \<or> \<not> is_tool (hd (vgo ow xs))) \<and> vgo ow' (vgo ow xs) = vgo ow xs"
proof (induction "length xs" arbitrary: xs ow ow' rule: less_induct)
  case less
  show ?case
  proof (cases xs)
    case Nil
    then show ?thesis by simp
  next
    case (Cons h ms)
    then have nt: "\<not> is_tool h" using less.prems by simp
    define ts where "ts = takeWhile is_tool ms"
    define rest where "rest = dropWhile is_tool ms"
    define out_rest where "out_rest = vgo (Some h) rest"
    have len: "length rest < length xs"
      using Cons by (simp add: rest_def less_Suc_eq_le length_dropWhile_le)
    have rest_head: "rest = [] \<or> \<not> is_tool (hd rest)"
      unfolding rest_def by (rule dropWhile_tool_head)
    have ihA: "out_rest = [] \<or> \<not> is_tool (hd out_rest)"
      and ihB: "\<And>o'. vgo o' out_rest = out_rest"
      using less.hyps[OF len rest_head] by (simp_all add: out_rest_def)
    have out: "vgo ow xs = seg_out h ts @ out_rest"
      using vgo_segment[OF nt, of ow ms "Some h"] Cons by (simp add: ts_def rest_def out_rest_def)
    have ts_tools: "list_all is_tool ts"
      unfolding ts_def by (rule takeWhile_all)
    from seg_out_stable[OF nt ts_tools] show ?thesis
    proof
      assume "seg_out h ts = []"
      then show ?thesis using out ihA ihB by simp
    next
      assume "\<exists>h' ts'. seg_out h ts = h' # ts' \<and> \<not> is_tool h' \<and> list_all is_tool ts' \<and>
                   seg_out h' ts' = h' # ts'"
      then obtain h' ts' where s: "seg_out h ts = h' # ts'" "\<not> is_tool h'" "list_all is_tool ts'"
        "seg_out h' ts' = h' # ts'" by blast
      have tw: "takeWhile is_tool (ts' @ out_rest) = ts'"
        using s(3) ihA by (rule takeWhile_run)
      have dw: "dropWhile is_tool (ts' @ out_rest) = out_rest"
        using s(3) ihA by (rule dropWhile_run)
      have "vgo ow' (h' # ts' @ out_rest) = seg_out h' ts' @ vgo ow' out_rest"
        using vgo_segment[OF s(2), of ow' "ts' @ out_rest" ow'] by (simp add: tw dw)
      then have "vgo ow' (vgo ow xs) = vgo ow xs"
        using out s ihB by simp
      moreover have "\<not> is_tool (hd (vgo ow xs))" using out s by simp
      ultimately show ?thesis by simp
    qed
  qed
qed

lemma vgo_None_leading_tools:
  "vgo None xs = vgo None (dropWhile is_tool xs)"
  by (induction xs) (auto simp: owner_answers_def)

lemma validate_idem: "validateOpenAIToolCalls (validateOpenAIToolCalls xs) = validateOpenAIToolCalls xs"
proof -
  have "vgo None (vgo None (dropWhile is_tool xs)) = vgo None (dropWhile is_tool xs)"
    using vgo_fixed[OF dropWhile_tool_head] by blast
  then show ?thesis
    using vgo_None_leading_tools[of xs] by (simp add: validate_is_vgo)
qed

lemma nearest_non_tool_run:
  "\<not> is_tool a \<Longrightarrow> list_all is_tool ts \<Longrightarrow> nearest_non_tool (pre @ a # ts) = Some a"
  by (induction ts rule: rev_induct)
     (simp_all add: nearest_non_tool_def)

lemma validate_at_run:
  assumes "\<not> is_tool a" "list_all is_tool ts"
  shows "concat (map (validate_at (pre @ a # ts @ post)) [Suc (length pre)..<Suc (length pre) + length ts])
           = filter (owner_answers (Some a)) ts"
  using assms(2)
proof (induction ts arbitrary: post rule: rev_induct)
  case Nil
  then show ?case by simp
next
  case (snoc t ts)
  then have tools: "list_all is_tool ts" and t: "is_tool t" by simp_all
  have ih: "concat (map (validate_at (pre @ a # ts @ t # post)) [Suc (length pre)..<Suc (length pre) + length ts])
           = filter (owner_answers (Some a)) ts"
    using snoc.IH[OF tools, of "t # post"] by simp
  have at: "validate_at ((pre @ a # ts) @ t # post) (length (pre @ a # ts))
              = (if owner_answers (Some a) t then [t] else [])"
    using t nearest_non_tool_run[OF assms(1) tools, of pre]
    by (simp only: validate_at_append) simp
  show ?case using ih at by simp
qed

lemma emit_head_all_answered:
  assumes "is_assistant_with_calls a" "calls_of a \<noteq> []"
    "\<forall>tc\<in>set (calls_of a). \<exists>t\<in>set ts. answers t tc"
  shows "emit_head a ts = [a]"
proof -
  have "filter (\<lambda>toolCall. list_ex (\<lambda>toolMsg. answers toolMsg toolCall) ts) (calls_of a) = calls_of a"
    using assms(3) by (simp add: filter_id_conv list_ex_iff)
  moreover have "a\<lparr>tool_calls := Some (calls_of a)\<rparr> = a"
    using assms(1) by (auto simp: is_assistant_with_calls_def calls_of_def)
  ultimately show ?thesis using assms(1,2)
    by (simp add: emit_head_def is_assistant_with_calls_def)
qed

lemma validate_segment_unchanged:
  assumes "is_assistant_with_calls a" "calls_of a \<noteq> []" "list_all is_tool ts"
    "post = [] \<or> \<not> is_tool (hd post)"
    "\<forall>tc\<in>set (calls_of a). \<exists>t\<in>set ts. answers t tc"
  shows "concat (map (validate_at (pre @ a # ts @ post)) [length pre..<Suc (length pre) + length ts])
           = a # filter (\<lambda>t. \<exists>tc\<in>set (calls_of a). answers t tc) ts"
proof -
  have nt: "\<not> is_tool a" using assms(1) by (rule not_tool_and_assistant)
  have "validate_at (pre @ a # ts @ post) (length pre) = emit_head a (takeWhile is_tool (ts @ post))"
    using nt by (simp add: validate_at_append)
  also have "takeWhile is_tool (ts @ post) = ts"
    using assms(3,4) by (rule takeWhile_run)
  finally have hd: "validate_at (pre @ a # ts @ post) (length pre) = [a]"
    using emit_head_all_answered[OF assms(1,2,5)] by simp
  have f: "filter (owner_answers (Some a)) ts = filter (\<lambda>t. \<exists>tc\<in>set (calls_of a). answers t tc) ts"
    using assms(1) by (intro filter_cong refl) (simp add: owner_answers_def list_ex_iff)
  have up: "[length pre..<Suc (length pre) + length ts]
             = length pre # [Suc (length pre)..<Suc (length pre) + length ts]"
    by (rule upt_conv_Cons) simp
  show ?thesis
    unfolding up using hd validate_at_run[OF nt assms(3), of pre post] f
    by (simp del: upt_Suc)
qed

lemma tool_kept_iff:
  assumes "i < length messages" "is_tool (messages ! i)"
  shows "validate_at messages i =
     (if (\<exists>a. nearest_non_tool (take i messages) = Some a \<and> is_assistant_with_calls a \<and>
               (\<exists>tc\<in>set (calls_of a). tool_call_id (messages ! i) = Some (call_id tc)))
      then [messages ! i] else [])"
proof -
  have "validate_at messages i = (if hasImmediateToolCall messages i then [messages ! i] else [])"
    using assms(2) not_tool_and_assistant[of "messages ! i"]
    by (auto simp: validate_at_def Let_def)
  then show ?thesis
    unfolding hasImmediateToolCall_nearest[OF assms(1)]
    by (auto simp: owner_answers_def list_ex_iff answers_def split: option.splits)
qed

subsection \<open>Claims C2 and C8\<close>

text \<open>
  Claim C2. The tool-pairing validator is idempotent: validating its own output changes
  nothing. In particular, take an assistant message \<open>a\<close> with at least one tool call,
  followed by the run \<open>ts\<close> of tool messages (the run ends where \<open>post\<close> begins), such that
  every tool call of \<open>a\<close> is answered by a message of the run. Then what the validator
  emits for \<open>a\<close> and its run is \<open>a\<close> itself, unchanged, followed by the unchanged tool
  messages that answer one of its calls.
\<close>

theorem validator_idempotent:
  "validateOpenAIToolCalls (validateOpenAIToolCalls xs) = validateOpenAIToolCalls xs \<and>
   (is_assistant_with_calls a \<and> calls_of a \<noteq> [] \<and> list_all is_tool ts \<and>
    (post = [] \<or> \<not> is_tool (hd post)) \<and>
    (\<forall>tc\<in>set (calls_of a). \<exists>t\<in>set ts. answers t tc)
    \<longrightarrow> concat (map (validate_at (pre @ a # ts @ post)) [length pre..<Suc (length pre) + length ts])
          = a # filter (\<lambda>t. \<exists>tc\<in>set (calls_of a). answers t tc) ts)"
proof
  show "validateOpenAIToolCalls (validateOpenAIToolCalls xs) = validateOpenAIToolCalls xs"
    by (rule validate_idem)
next
  show "is_assistant_with_calls a \<and> calls_of a \<noteq> [] \<and> list_all is_tool ts \<and>
    (post = [] \<or> \<not> is_tool (hd post)) \<and>
    (\<forall>tc\<in>set (calls_of a). \<exists>t\<in>set ts. answers t tc)
    \<longrightarrow> concat (map (validate_at (pre @ a # ts @ post)) [length pre..<Suc (length pre) + length ts])
          = a # filter (\<lambda>t. \<exists>tc\<in>set (calls_of a). answers t tc) ts"
    using validate_segment_unchanged[of a ts post pre] by blast
qed

theorem validator_idempotent_witness:
  "is_assistant_with_calls example_assistant \<and> calls_of example_assistant \<noteq> [] \<and>
   list_all is_tool [example_tool] \<and>
   list_all (\<lambda>tc. list_ex (\<lambda>t. answers t tc) [example_tool]) (calls_of example_assistant) \<and>
   concat (map (validate_at [example_user, example_assistant, example_tool])
             [length [example_user]..<Suc (length [example_user]) + length [example_tool]])
     = [example_assistant, example_tool] \<and>
   validateOpenAIToolCalls (validateOpenAIToolCalls [example_assistant, example_user, example_tool])
     = [example_user]"
proof -
  have hyps: "is_assistant_with_calls example_assistant" "calls_of example_assistant \<noteq> []"
    "list_all is_tool [example_tool]"
    "list_all (\<lambda>tc. list_ex (\<lambda>t. answers t tc) [example_tool]) (calls_of example_assistant)"
    by (simp_all add: example_assistant_def example_tool_def example_call_def
          is_assistant_with_calls_def is_tool_def calls_of_def answers_def lit_def)
  have seg: "concat (map (validate_at ([example_user] @ example_assistant # [example_tool] @ []))
                 [length [example_user]..<Suc (length [example_user]) + length [example_tool]])
        = example_assistant # filter (\<lambda>t. \<exists>tc\<in>set (calls_of example_assistant). answers t tc) [example_tool]"
    using validator_idempotent[of "[]" example_assistant "[example_tool]" "[]" "[example_user]"] hyps
    by (simp add: list_all_iff list_ex_iff)
  have keep: "filter (\<lambda>t. \<exists>tc\<in>set (calls_of example_assistant). answers t tc) [example_tool] = [example_tool]"
    using hyps(2,4) by (cases "calls_of example_assistant") (auto simp: list_ex_iff)
  have idem: "validateOpenAIToolCalls (validateOpenAIToolCalls [example_assistant, example_user, example_tool])
        = validateOpenAIToolCalls [example_assistant, example_user, example_tool]"
    using validator_idempotent[of "[example_assistant, example_user, example_tool]"] by blast
  have once: "validateOpenAIToolCalls [example_assistant, example_user, example_tool] = [example_user]"
    by (simp add: validate_is_vgo emit_head_def owner_answers_def example_assistant_def
          example_user_def example_tool_def example_call_def is_assistant_with_calls_def
          is_tool_def calls_of_def answers_def lit_def)
  from seg keep have seg': "concat (map (validate_at [example_user, example_assistant, example_tool])
             [length [example_user]..<Suc (length [example_user]) + length [example_tool]])
     = [example_assistant, example_tool]"
    by (simp only: append.simps)
  show ?thesis
    using hyps seg' idem once by (simp only: simp_thms)
qed

text \<open>
  Claim C8. The validator keeps a tool message exactly when the nearest preceding message
  that is not a tool message exists, is an assistant message with tool calls, and one of
  those calls has the id the tool message answers; otherwise the tool message is dropped.
\<close>

theorem tool_message_kept_iff:
  assumes "i < length messages" and "is_tool (messages ! i)"
  shows "validate_at messages i =
     (if (\<exists>a. nearest_non_tool (take i messages) = Some a \<and> is_assistant_with_calls a \<and>
               (\<exists>tc\<in>set (calls_of a). tool_call_id (messages ! i) = Some (call_id tc)))
      then [messages ! i] else [])"
  using assms by (rule tool_kept_iff)

theorem tool_message_kept_iff_witness:
  "validate_at [example_assistant, example_tool, example_tool] 2 = [example_tool] \<and>
   validate_at [example_tool] 0 = [] \<and>
   validate_at [example_user, example_tool] 1 = []"
proof -
  have a: "nearest_non_tool (take 2 [example_assistant, example_tool, example_tool]) = Some example_assistant"
    by (simp add: nearest_non_tool_def example_assistant_def example_tool_def is_tool_def lit_def)
  have b: "nearest_non_tool (take 1 [example_user, example_tool]) = Some example_user"
    by (simp add: nearest_non_tool_def example_user_def example_tool_def is_tool_def lit_def)
  have t: "is_tool example_tool" "is_assistant_with_calls example_assistant"
    "\<not> is_assistant_with_calls example_user"
    "\<exists>tc\<in>set (calls_of example_assistant). tool_call_id example_tool = Some (call_id tc)"
    by (simp_all add: example_assistant_def example_tool_def example_user_def example_call_def
          is_assistant_with_calls_def is_tool_def calls_of_def lit_def)
  show ?thesis
    using tool_message_kept_iff[of 2 "[example_assistant, example_tool, example_tool]"]
      tool_message_kept_iff[of 0 "[example_tool]"]
      tool_message_kept_iff[of 1 "[example_user, example_tool]"] a b t
    by (simp add: nearest_non_tool_def)
qed

section \<open>The translator: empty assistant messages\<close>

lemma user_parts_roles:
  "user_parts stringify ps utext acc = Inr (utext', tms) \<Longrightarrow> list_all is_tool acc \<Longrightarrow> list_all is_tool tms"
  by (induction stringify ps utext acc rule: user_parts.induct) (auto simp: is_tool_def)

lemma tool_not_empty_assistant: "is_tool m \<Longrightarrow> \<not> empty_assistant m"
  by (auto simp: is_tool_def empty_assistant_def lit_def)

lemma translate_message_no_empty:
  assumes "translate_message stringify m = Inr out" and "\<not> empty_string_assistant m"
  shows "list_all (\<lambda>x. \<not> empty_assistant x) out"
proof (cases "src_content m")
  case (ContentString s)
  then show ?thesis using assms
    by (auto simp: translate_message_def empty_assistant_def empty_string_assistant_def)
next
  case ContentOther
  then show ?thesis using assms by (auto simp: translate_message_def)
next
  case (ContentArray parts)
  show ?thesis
  proof (cases "src_role m = lit ''assistant''")
    case True
    then show ?thesis using assms ContentArray
      by (auto simp: translate_message_def empty_assistant_def Let_def
            split: sum.splits prod.splits if_splits)
  next
    case notA: False
    show ?thesis
    proof (cases "src_role m = lit ''user''")
      case True
      have u: "\<not> empty_assistant \<lparr>role = lit ''user'', content = c, tool_calls = None, tool_call_id = None\<rparr>" for c
        by (simp add: empty_assistant_def lit_def)
      from assms ContentArray notA True obtain utext tms where
        up: "user_parts stringify parts [] [] = Inr (utext, tms)"
        and out: "out = (if length (trim utext) > 0
                    then [\<lparr>role = lit ''user'', content = CString (trim utext),
                            tool_calls = None, tool_call_id = None\<rparr>] else []) @ tms"
        by (auto simp: translate_message_def Let_def split: sum.splits prod.splits)
      have "list_all is_tool tms" using user_parts_roles[OF up] by simp
      then have "list_all (\<lambda>x. \<not> empty_assistant x) tms"
        by (auto simp: list_all_iff tool_not_empty_assistant)
      then show ?thesis using out u by simp
    next
      case False
      then show ?thesis using assms ContentArray notA
        by (auto simp: translate_message_def empty_assistant_def Let_def
              split: sum.splits if_splits)
    qed
  qed
qed

lemma translate_messages_no_empty:
  "translate_messages stringify ms = Inr out \<Longrightarrow> list_all (\<lambda>m. \<not> empty_string_assistant m) ms
   \<Longrightarrow> list_all (\<lambda>x. \<not> empty_assistant x) out"
proof (induction ms arbitrary: out)
  case Nil
  then show ?case by simp
next
  case (Cons m ms)
  from Cons.prems(1) obtain o1 o2 where
    a: "translate_message stringify m = Inr o1" and b: "translate_messages stringify ms = Inr o2"
    and c: "out = o1 @ o2"
    by (auto split: sum.splits)
  have "list_all (\<lambda>x. \<not> empty_assistant x) o1"
    using translate_message_no_empty[OF a] Cons.prems(2) by simp
  moreover have "list_all (\<lambda>x. \<not> empty_assistant x) o2"
    using Cons.IH[OF b] Cons.prems(2) by simp
  ultimately show ?case using c by simp
qed

lemma validate_at_no_empty:
  assumes "i < length xs" and "\<not> empty_assistant (xs ! i)"
  shows "list_all (\<lambda>x. \<not> empty_assistant x) (validate_at xs i)"
  using assms(2)
  by (auto simp: validate_at_def Let_def empty_assistant_def)

lemma validate_no_empty:
  assumes "list_all (\<lambda>x. \<not> empty_assistant x) xs"
  shows "list_all (\<lambda>x. \<not> empty_assistant x) (validateOpenAIToolCalls xs)"
proof -
  have "list_all (\<lambda>x. \<not> empty_assistant x) (validate_at xs i)" if "i < length xs" for i
    using that assms validate_at_no_empty[of i xs] by (simp add: list_all_length)
  then show ?thesis
    by (auto simp: validateOpenAIToolCalls_def list_all_iff)
qed

lemma system_not_empty_assistant: "list_all (\<lambda>x. \<not> empty_assistant x) (systemMessages sys)"
  by (cases sys) (auto simp: list_all_iff system_block_def empty_assistant_def)

subsection \<open>Claim C3\<close>

text \<open>
  Claim C3, as stated, fails: a source assistant message whose content is the empty string
  takes the string short-circuit and reaches the target list unchanged, and the validator
  passes an assistant message without tool calls as it is. Two such source messages give
  two adjacent assistant messages with empty content and no tool calls.
\<close>

theorem empty_assistant_survives:
  "(case openAIMessages (\<lambda>j. []) (Some [example_empty_source, example_empty_source]) of
      Inl e \<Rightarrow> False
    | Inr translated \<Rightarrow>
        length (validateOpenAIToolCalls translated) = 2 \<and>
        empty_assistant (validateOpenAIToolCalls translated ! 0) \<and>
        empty_assistant (validateOpenAIToolCalls translated ! 1))"
  by (simp add: openAIMessages_def translate_message_def example_empty_source_def
        validate_is_vgo emit_head_def is_tool_def is_assistant_with_calls_def empty_assistant_def
        lit_def)

text \<open>
  Claim C3, amended. For every source message list in which no assistant message has the
  empty string as its content, and every system field: if translation succeeds, the system
  messages followed by the validated translation contain no assistant message whose content
  is empty or absent and which has no tool calls (hence no two adjacent ones).
\<close>

theorem no_empty_assistant:
  assumes "openAIMessages stringify (Some ms) = Inr translated"
    and "list_all (\<lambda>m. \<not> empty_string_assistant m) ms"
  shows "list_all (\<lambda>m. \<not> empty_assistant m)
           (systemMessages sys @ validateOpenAIToolCalls translated)"
  using assms translate_messages_no_empty[of stringify ms translated]
    validate_no_empty[of translated] system_not_empty_assistant[of sys]
  by (simp add: openAIMessages_def)

theorem no_empty_assistant_witness:
  "openAIMessages (\<lambda>j. [])
     (Some [\<lparr>src_role = lit ''assistant'',
             src_content = ContentArray [ToolUseBlock (lit ''t1'') (lit ''f'') JNull]\<rparr>,
            \<lparr>src_role = lit ''assistant'', src_content = ContentString (lit ''Hi'')\<rparr>])
     = Inr [\<lparr>role = lit ''assistant'', content = CNull,
              tool_calls = Some [\<lparr>call_id = lit ''t1'', call_type = lit ''function'',
                                   function_name = lit ''f'', function_arguments = []\<rparr>],
              tool_call_id = None\<rparr>,
            \<lparr>role = lit ''assistant'', content = CString (lit ''Hi''),
              tool_calls = None, tool_call_id = None\<rparr>] \<and>
   list_all (\<lambda>m. \<not> empty_string_assistant m)
     [\<lparr>src_role = lit ''assistant'',
       src_content = ContentArray [ToolUseBlock (lit ''t1'') (lit ''f'') JNull]\<rparr>,
      \<lparr>src_role = lit ''assistant'', src_content = ContentString (lit ''Hi'')\<rparr>] \<and>
   list_all (\<lambda>m. \<not> empty_assistant m)
     (systemMessages (SystemString (lit ''S'')) @
      validateOpenAIToolCalls
        [\<lparr>role = lit ''assistant'', content = CNull,
           tool_calls = Some [\<lparr>call_id = lit ''t1'', call_type = lit ''function'',
                                function_name = lit ''f'', function_arguments = []\<rparr>],
           tool_call_id = None\<rparr>,
         \<lparr>role = lit ''assistant'', content = CString (lit ''Hi''),
           tool_calls = None, tool_call_id = None\<rparr>])"
proof -
  have tr: "openAIMessages (\<lambda>j. [])
     (Some [\<lparr>src_role = lit ''assistant'',
             src_content = ContentArray [ToolUseBlock (lit ''t1'') (lit ''f'') JNull]\<rparr>,
            \<lparr>src_role = lit ''assistant'', src_content = ContentString (lit ''Hi'')\<rparr>])
     = Inr [\<lparr>role = lit ''assistant'', content = CNull,
              tool_calls = Some [\<lparr>call_id = lit ''t1'', call_type = lit ''function'',
                                   function_name = lit ''f'', function_arguments = []\<rparr>],
              tool_call_id = None\<rparr>,
            \<lparr>role = lit ''assistant'', content = CString (lit ''Hi''),
              tool_calls = None, tool_call_id = None\<rparr>]"
    by (simp add: openAIMessages_def translate_message_def trim_def)
  have hyp: "list_all (\<lambda>m. \<not> empty_string_assistant m)
     [\<lparr>src_role = lit ''assistant'',
       src_content = ContentArray [ToolUseBlock (lit ''t1'') (lit ''f'') JNull]\<rparr>,
      \<lparr>src_role = lit ''assistant'', src_content = ContentString (lit ''Hi'')\<rparr>]"
    by (simp add: empty_string_assistant_def lit_def)
  show ?thesis
    using tr hyp no_empty_assistant[OF tr hyp, of "SystemString (lit ''S'')"]
    by (simp only: simp_thms)
qed

section \<open>Request assembly: the cache-control markers\<close>

lemma user_parts_no_blocks:
  "user_parts stringify ps utext acc = Inr (utext', tms) \<Longrightarrow> list_all (\<lambda>m. blocks_of m = []) acc
   \<Longrightarrow> list_all (\<lambda>m. blocks_of m = []) tms"
proof (induction stringify ps utext acc rule: user_parts.induct)
  case (4 stringify i c ps userText toolMessages)
  have "blocks_of \<lparr>role = lit ''tool'', content = tool_content stringify c,
                    tool_calls = None, tool_call_id = Some i\<rparr> = []"
    by (cases "(stringify, c)" rule: tool_content.cases) (simp_all add: blocks_of_def)
  with 4 show ?case by simp
qed auto

lemma translate_message_no_blocks:
  assumes "translate_message stringify m = Inr out"
  shows "list_all (\<lambda>x. blocks_of x = []) out"
proof (cases "src_content m")
  case (ContentString s)
  then show ?thesis using assms by (auto simp: translate_message_def blocks_of_def)
next
  case ContentOther
  then show ?thesis using assms by (auto simp: translate_message_def)
next
  case (ContentArray parts)
  show ?thesis
  proof (cases "src_role m = lit ''assistant''")
    case True
    then show ?thesis using assms ContentArray
      by (auto simp: translate_message_def blocks_of_def Let_def
            split: sum.splits prod.splits if_splits)
  next
    case notA: False
    show ?thesis
    proof (cases "src_role m = lit ''user''")
      case True
      from assms ContentArray notA True obtain utext tms where
        up: "user_parts stringify parts [] [] = Inr (utext, tms)"
        and out: "out = (if length (trim utext) > 0
                    then [\<lparr>role = lit ''user'', content = CString (trim utext),
                            tool_calls = None, tool_call_id = None\<rparr>] else []) @ tms"
        by (auto simp: translate_message_def Let_def split: sum.splits prod.splits)
      have "list_all (\<lambda>m. blocks_of m = []) tms" using user_parts_no_blocks[OF up] by simp
      then show ?thesis using out by (simp add: blocks_of_def)
    next
      case False
      then show ?thesis using assms ContentArray notA
        by (auto simp: translate_message_def blocks_of_def Let_def split: sum.splits if_splits)
    qed
  qed
qed

lemma translate_messages_no_blocks:
  "translate_messages stringify ms = Inr out \<Longrightarrow> list_all (\<lambda>x. blocks_of x = []) out"
proof (induction ms arbitrary: out)
  case Nil
  then show ?case by simp
next
  case (Cons m ms)
  from Cons.prems obtain o1 o2 where
    a: "translate_message stringify m = Inr o1" and b: "translate_messages stringify ms = Inr o2"
    and c: "out = o1 @ o2"
    by (auto split: sum.splits)
  show ?case using translate_message_no_blocks[OF a] Cons.IH[OF b] c by simp
qed

lemma validate_at_no_blocks:
  assumes "blocks_of (xs ! i) = []"
  shows "list_all (\<lambda>x. blocks_of x = []) (validate_at xs i)"
  using assms by (auto simp: validate_at_def Let_def blocks_of_def)

lemma validate_no_blocks:
  assumes "list_all (\<lambda>x. blocks_of x = []) xs"
  shows "list_all (\<lambda>x. blocks_of x = []) (validateOpenAIToolCalls xs)"
proof -
  have "list_all (\<lambda>x. blocks_of x = []) (validate_at xs i)" if "i < length xs" for i
    using that assms validate_at_no_blocks[of xs i] by (simp add: list_all_length)
  then show ?thesis
    by (auto simp: validateOpenAIToolCalls_def list_all_iff)
qed

lemma marks_of_system: "map marks_of (systemMessages sys) = map (\<lambda>m. [True]) (systemMessages sys)"
  by (cases sys) (simp_all add: marks_of_def blocks_of_def system_block_def)

lemma mark_last_system:
  "m \<in> set (systemMessages sys) \<Longrightarrow> marks_of (mark_last_message m) = [True]"
  by (cases sys) (auto simp: marks_of_def blocks_of_def system_block_def mark_last_message_def)

lemma marks_of_no_blocks: "list_all (\<lambda>x. blocks_of x = []) xs \<Longrightarrow> map marks_of xs = map (\<lambda>m. []) xs"
  by (induction xs) (simp_all add: marks_of_def)

lemma mark_last_no_blocks:
  "blocks_of m = [] \<Longrightarrow>
   marks_of (mark_last_message m) = (case content m of CString s \<Rightarrow> [True] | _ \<Rightarrow> [])"
  by (cases "content m") (simp_all add: marks_of_def blocks_of_def mark_last_message_def)

lemma marks_of_final:
  assumes "list_all (\<lambda>x. blocks_of x = []) v"
  shows "map marks_of (add_cache_control (systemMessages sys @ v)) =
           map (\<lambda>m. [True]) (systemMessages sys) @
           (if v = [] then []
            else map (\<lambda>m. []) (butlast v) @
                 [case content (last v) of CString s \<Rightarrow> [True] | _ \<Rightarrow> []])"
proof (cases "v = []")
  case True
  show ?thesis
  proof (cases "systemMessages sys = []")
    case True
    with \<open>v = []\<close> show ?thesis by (simp add: add_cache_control_def)
  next
    case False
    then have "marks_of (mark_last_message (last (systemMessages sys))) = [True]"
      using mark_last_system[of "last (systemMessages sys)" sys] by simp
    moreover have "map marks_of (butlast (systemMessages sys))
                    = map (\<lambda>m. [True]) (butlast (systemMessages sys))"
      using marks_of_system[of sys] by (auto dest: in_set_butlastD)
    moreover have "map (\<lambda>m. [True]) (systemMessages sys)
                    = map (\<lambda>m. [True]) (butlast (systemMessages sys)) @ [[True :: bool]]"
      using False by (metis (no_types) append_butlast_last_id list.simps(8,9) map_append)
    ultimately show ?thesis using False \<open>v = []\<close>
      by (simp add: add_cache_control_def)
  qed
next
  case False
  have bl: "list_all (\<lambda>x. blocks_of x = []) (butlast v)" "blocks_of (last v) = []"
    using assms False by (auto simp: list_all_iff dest: in_set_butlastD)
  show ?thesis
    using False marks_of_system[of sys] marks_of_no_blocks[OF bl(1)] mark_last_no_blocks[OF bl(2)]
    by (simp add: add_cache_control_def butlast_append)
qed

lemma mark_last_system_unchanged:
  "m \<in> set (systemMessages sys) \<Longrightarrow> mark_last_message m = m"
  by (cases sys) (auto simp: system_block_def mark_last_message_def)

lemma mark_last_no_blocks_message:
  "blocks_of m = [] \<Longrightarrow>
   mark_last_message m =
     (case content m of
        CString s \<Rightarrow>
          m\<lparr>content := CBlocks [\<lparr>block_type = lit ''text'', block_text = s,
                                   block_cache_control = Some Ephemeral\<rparr>]\<rparr>
      | _ \<Rightarrow> m)"
  by (cases "content m") (simp_all add: blocks_of_def mark_last_message_def)

lemma final_messages:
  assumes "list_all (\<lambda>x. blocks_of x = []) v"
  shows "add_cache_control (systemMessages sys @ v) =
           systemMessages sys @
           (if v = [] then []
            else butlast v @
                 [case content (last v) of
                    CString s \<Rightarrow>
                      (last v)\<lparr>content := CBlocks [\<lparr>block_type = lit ''text'', block_text = s,
                                                      block_cache_control = Some Ephemeral\<rparr>]\<rparr>
                  | _ \<Rightarrow> last v])"
proof (cases "v = []")
  case True
  show ?thesis
  proof (cases "systemMessages sys = []")
    case True
    with \<open>v = []\<close> show ?thesis by (simp add: add_cache_control_def)
  next
    case False
    then have "mark_last_message (last (systemMessages sys)) = last (systemMessages sys)"
      using mark_last_system_unchanged[of "last (systemMessages sys)" sys] by simp
    then show ?thesis using False \<open>v = []\<close>
      by (simp add: add_cache_control_def)
  qed
next
  case False
  have "blocks_of (last v) = []"
    using assms False by (auto simp: list_all_iff)
  then show ?thesis
    using False mark_last_no_blocks_message[of "last v"]
    by (simp add: add_cache_control_def butlast_append)
qed

lemma system_blocks:
  "map blocks_of (systemMessages sys) =
     map (\<lambda>t. [\<lparr>block_type = lit ''text'', block_text = t,
                   block_cache_control = Some Ephemeral\<rparr>])
       (case sys of SystemArray items \<Rightarrow> items | SystemString s \<Rightarrow> [s])"
  by (cases sys) (simp_all add: blocks_of_def system_block_def)

subsection \<open>Claim C4\<close>

text \<open>
  Claim C4: for the source message list with the single user message whose content is the
  text block \<open>Hi\<close>, and the system string \<open>You are helpful\<close>, the request built has
  exactly two messages, the marked system message and a user message whose content is one
  marked text block. The text of that block, however, is not \<open>Hi\<close>: the translator appends
  the two characters backslash and \<open>n\<close> to every text part, and \<open>trim\<close> does not remove
  them.
\<close>

theorem hi_scenario:
  "build_request stringify example_hi =
     Inr \<lparr>out_model = lit ''m'',
          out_messages =
            [\<lparr>role = lit ''system'',
              content = CBlocks [\<lparr>block_type = lit ''text'', block_text = lit ''You are helpful'',
                                   block_cache_control = Some Ephemeral\<rparr>],
              tool_calls = None, tool_call_id = None\<rparr>,
             \<lparr>role = lit ''user'',
              content = CBlocks [\<lparr>block_type = lit ''text'', block_text = [72, 105, 92, 110],
                                   block_cache_control = Some Ephemeral\<rparr>],
              tool_calls = None, tool_call_id = None\<rparr>],
          out_temperature = None, out_stream = False, out_tools = None\<rparr> \<and>
   lit ''Hi'' = [72, 105]"
  by (simp add: build_request_def example_hi_def openAIMessages_def translate_message_def
        separator_def trim_def is_js_space_def validate_is_vgo emit_head_def is_tool_def
        is_assistant_with_calls_def system_block_def add_cache_control_def mark_last_message_def
        lit_def)

subsection \<open>Claim C5\<close>

text \<open>
  Claim C5, as stated, fails: when the last message of a non-empty final list has no string
  content, no further block is marked. For \<open>example_tool_exchange\<close> the final list is
  an assistant message with a tool call and a tool message without content, and no content
  block of it carries a marker.
\<close>

theorem no_marker_at_all:
  "(case build_request (\<lambda>j. []) example_tool_exchange of
      Inl e \<Rightarrow> False
    | Inr data \<Rightarrow>
        map role (out_messages data) = [lit ''assistant'', lit ''tool''] \<and>
        map marks_of (out_messages data) = [[], []])"
  by (simp add: build_request_def example_tool_exchange_def openAIMessages_def
        translate_message_def trim_def validate_is_vgo emit_head_def owner_answers_def
        is_tool_def is_assistant_with_calls_def calls_of_def answers_def
        add_cache_control_def mark_last_message_def marks_of_def blocks_of_def lit_def)

text \<open>
  Claim C5, amended. For every inbound request whose translation succeeds, the final list
  is the system messages followed by the validated messages, of which only the last may be
  changed. Every system message has exactly one content block, of type text, holding the
  text of its system entry and carrying the ephemeral marker. The validated messages have
  no content blocks of their own. If the validated list is not empty and its last message
  has a plain string as content, that content is rewrapped as exactly one block: of type
  text, holding that string and carrying the ephemeral marker. If its content is null or
  absent, the last message is left as it is, and so is a list that ends with a system
  message: then no further block carries a marker. No other message has any content
  block.
\<close>

theorem cache_markers:
  assumes "openAIMessages stringify (in_messages b) = Inr translated"
  shows "\<exists>data. build_request stringify b = Inr data \<and>
           out_messages data =
             systemMessages (in_system b) @
             (if validateOpenAIToolCalls translated = [] then []
              else butlast (validateOpenAIToolCalls translated) @
                   [case content (last (validateOpenAIToolCalls translated)) of
                      CString s \<Rightarrow>
                        (last (validateOpenAIToolCalls translated))
                          \<lparr>content := CBlocks [\<lparr>block_type = lit ''text'', block_text = s,
                                                  block_cache_control = Some Ephemeral\<rparr>]\<rparr>
                    | _ \<Rightarrow> last (validateOpenAIToolCalls translated)]) \<and>
           map blocks_of (systemMessages (in_system b)) =
             map (\<lambda>t. [\<lparr>block_type = lit ''text'', block_text = t,
                           block_cache_control = Some Ephemeral\<rparr>])
               (case in_system b of SystemArray items \<Rightarrow> items | SystemString s \<Rightarrow> [s]) \<and>
           list_all (\<lambda>m. blocks_of m = []) (validateOpenAIToolCalls translated) \<and>
           map marks_of (out_messages data) =
             map (\<lambda>m. [True]) (systemMessages (in_system b)) @
             (if validateOpenAIToolCalls translated = [] then []
              else map (\<lambda>m. []) (butlast (validateOpenAIToolCalls translated)) @
                   [case content (last (validateOpenAIToolCalls translated)) of
                      CString s \<Rightarrow> [True] | _ \<Rightarrow> []])"
proof -
  have "list_all (\<lambda>x. blocks_of x = []) translated"
    using assms translate_messages_no_blocks[of stringify _ translated]
    by (auto simp: openAIMessages_def split: option.splits)
  then have nb: "list_all (\<lambda>x. blocks_of x = []) (validateOpenAIToolCalls translated)"
    by (rule validate_no_blocks)
  define data where
    "data = \<lparr>out_model = in_model b,
             out_messages =
               add_cache_control (systemMessages (in_system b) @ validateOpenAIToolCalls translated),
             out_temperature = in_temperature b,
             out_stream = in_stream b,
             out_tools = map_option convert_tools (in_tools b)\<rparr>"
  have built: "build_request stringify b = Inr data"
    using assms by (simp add: build_request_def data_def)
  have om: "out_messages data =
      add_cache_control (systemMessages (in_system b) @ validateOpenAIToolCalls translated)"
    by (simp add: data_def)
  have c1: "out_messages data =
             systemMessages (in_system b) @
             (if validateOpenAIToolCalls translated = [] then []
              else butlast (validateOpenAIToolCalls translated) @
                   [case content (last (validateOpenAIToolCalls translated)) of
                      CString s \<Rightarrow>
                        (last (validateOpenAIToolCalls translated))
                          \<lparr>content := CBlocks [\<lparr>block_type = lit ''text'', block_text = s,
                                                  block_cache_control = Some Ephemeral\<rparr>]\<rparr>
                    | _ \<Rightarrow> last (validateOpenAIToolCalls translated)])"
    unfolding om by (rule final_messages[OF nb])
  have c4: "map marks_of (out_messages data) =
             map (\<lambda>m. [True]) (systemMessages (in_system b)) @
             (if validateOpenAIToolCalls translated = [] then []
              else map (\<lambda>m. []) (butlast (validateOpenAIToolCalls translated)) @
                   [case content (last (validateOpenAIToolCalls translated)) of
                      CString s \<Rightarrow> [True] | _ \<Rightarrow> []])"
    unfolding om by (rule marks_of_final[OF nb])
  from built c1 system_blocks[of "in_system b"] nb c4 show ?thesis
    by blast
qed

theorem cache_markers_witness:
  "openAIMessages (\<lambda>j. []) (in_messages example_hi)
     = Inr [\<lparr>role = lit ''user'', content = CString [72, 105, 92, 110],
              tool_calls = None, tool_call_id = None\<rparr>] \<and>
   (\<exists>data. build_request (\<lambda>j. []) example_hi = Inr data \<and>
            out_messages data =
              [system_block (lit ''You are helpful''),
               \<lparr>role = lit ''user'',
                content = CBlocks [\<lparr>block_type = lit ''text'', block_text = [72, 105, 92, 110],
                                     block_cache_control = Some Ephemeral\<rparr>],
                tool_calls = None, tool_call_id = None\<rparr>] \<and>
            map marks_of (out_messages data) = [[True], [True]])"
proof -
  have tr: "openAIMessages (\<lambda>j. []) (in_messages example_hi)
     = Inr [\<lparr>role = lit ''user'', content = CString [72, 105, 92, 110],
              tool_calls = None, tool_call_id = None\<rparr>]"
    by (simp add: example_hi_def openAIMessages_def translate_message_def separator_def
          trim_def is_js_space_def lit_def)
  have v: "validateOpenAIToolCalls [\<lparr>role = lit ''user'', content = CString [72, 105, 92, 110],
              tool_calls = None, tool_call_id = None\<rparr>]
           = [\<lparr>role = lit ''user'', content = CString [72, 105, 92, 110],
              tool_calls = None, tool_call_id = None\<rparr>]"
    by (simp add: validate_is_vgo emit_head_def is_tool_def is_assistant_with_calls_def lit_def)
  have s: "in_system example_hi = SystemString (lit ''You are helpful'')"
    by (simp add: example_hi_def)
  from cache_markers[OF tr] obtain data where
    d: "build_request (\<lambda>j. []) example_hi = Inr data"
      "out_messages data =
             systemMessages (in_system example_hi) @
             (if validateOpenAIToolCalls [\<lparr>role = lit ''user'', content = CString [72, 105, 92, 110],
                    tool_calls = None, tool_call_id = None\<rparr>] = [] then []
              else butlast (validateOpenAIToolCalls [\<lparr>role = lit ''user'',
                      content = CString [72, 105, 92, 110],
                      tool_calls = None, tool_call_id = None\<rparr>]) @
                   [case content (last (validateOpenAIToolCalls [\<lparr>role = lit ''user'',
                      content = CString [72, 105, 92, 110],
                      tool_calls = None, tool_call_id = None\<rparr>])) of
                      CString s \<Rightarrow>
                        (last (validateOpenAIToolCalls [\<lparr>role = lit ''user'',
                      content = CString [72, 105, 92, 110],
                      tool_calls = None, tool_call_id = None\<rparr>]))
                          \<lparr>content := CBlocks [\<lparr>block_type = lit ''text'', block_text = s,
                                                  block_cache_control = Some Ephemeral\<rparr>]\<rparr>
                    | _ \<Rightarrow> last (validateOpenAIToolCalls [\<lparr>role = lit ''user'',
                      content = CString [72, 105, 92, 110],
                      tool_calls = None, tool_call_id = None\<rparr>])])"
      "map marks_of (out_messages data) =
             map (\<lambda>m. [True]) (systemMessages (in_system example_hi)) @
             (if validateOpenAIToolCalls [\<lparr>role = lit ''user'', content = CString [72, 105, 92, 110],
                    tool_calls = None, tool_call_id = None\<rparr>] = [] then []
              else map (\<lambda>m. []) (butlast (validateOpenAIToolCalls [\<lparr>role = lit ''user'',
                      content = CString [72, 105, 92, 110],
                      tool_calls = None, tool_call_id = None\<rparr>])) @
                   [case content (last (validateOpenAIToolCalls [\<lparr>role = lit ''user'',
                      content = CString [72, 105, 92, 110],
                      tool_calls = None, tool_call_id = None\<rparr>])) of
                      CString s \<Rightarrow> [True] | _ \<Rightarrow> []])"
    by blast
  have m: "out_messages data =
              [system_block (lit ''You are helpful''),
               \<lparr>role = lit ''user'',
                content = CBlocks [\<lparr>block_type = lit ''text'', block_text = [72, 105, 92, 110],
                                     block_cache_control = Some Ephemeral\<rparr>],
                tool_calls = None, tool_call_id = None\<rparr>]"
    using d(2) by (simp add: v s)
  have k: "map marks_of (out_messages data) = [[True], [True]]"
    using d(3) by (simp add: v s)
  show ?thesis
    by (intro conjI exI[of _ data]) (rule tr d(1) m k)+
qed

section \<open>The decoder: lines, chunks and events\<close>

lemma split_nl_nonempty: "split_nl s \<noteq> []"
  by (induction s) (auto split: list.splits)

lemma split_nl_append:
  "split_nl (a @ b) = butlast (split_nl a) @ split_nl (last (split_nl a) @ b)"
proof (induction a)
  case Nil
  then show ?case by simp
next
  case (Cons c cs)
  obtain l ls where X: "split_nl cs = l # ls"
    using split_nl_nonempty[of cs] by (cases "split_nl cs") auto
  show ?case
  proof (cases "c = 10")
    case True
    then show ?thesis using Cons X by simp
  next
    case False
    show ?thesis
    proof (cases ls)
      case Nil
      then show ?thesis using Cons X False by simp
    next
      case (Cons l' ls')
      then show ?thesis using Cons.IH X False by simp
    qed
  qed
qed

lemma split_nl_subset: "l \<in> set (split_nl s) \<Longrightarrow> set l \<subseteq> set s"
proof (induction s arbitrary: l)
  case Nil
  then show ?case by simp
next
  case (Cons c cs)
  obtain l0 ls where X: "split_nl cs = l0 # ls"
    using split_nl_nonempty[of cs] by (cases "split_nl cs") auto
  have ih: "\<forall>l'\<in>set (l0 # ls). set l' \<subseteq> set cs"
    using Cons.IH X by simp
  show ?case
  proof (cases "c = 10")
    case True
    then have "l = [] \<or> l \<in> set (l0 # ls)" using Cons.prems X by simp
    then show ?thesis using ih by auto
  next
    case False
    then have "l = c # l0 \<or> l \<in> set ls" using Cons.prems X by simp
    then show ?thesis using ih by auto
  qed
qed

lemma trim_empty_iff: "trim s = [] \<longleftrightarrow> list_all is_js_space s"
proof
  assume "trim s = []"
  then have "dropWhile is_js_space (rev (dropWhile is_js_space s)) = []"
    by (simp add: trim_def)
  then have "\<forall>x\<in>set (dropWhile is_js_space s). is_js_space x"
    by (simp add: dropWhile_eq_Nil_conv)
  then have "dropWhile is_js_space s = []"
    by (metis hd_dropWhile hd_in_set)
  then show "list_all is_js_space s"
    by (simp add: dropWhile_eq_Nil_conv list_all_iff)
next
  assume "list_all is_js_space s"
  then have "dropWhile is_js_space s = []"
    by (simp add: dropWhile_eq_Nil_conv list_all_iff)
  then show "trim s = []"
    by (simp add: trim_def del: dropWhile_eq_Nil_conv)
qed

lemma process_blank: "trim line = [] \<Longrightarrow> process_line parse line = []"
  by (simp add: process_line_def)

lemma blank_buffer_no_events:
  assumes "trim buffer = []"
  shows "concat (map (process_line parse) (split_nl buffer)) = []"
proof -
  have "process_line parse l = []" if "l \<in> set (split_nl buffer)" for l
  proof -
    have "list_all is_js_space l"
      using assms split_nl_subset[OF that] by (auto simp: trim_empty_iff list_all_iff)
    then show ?thesis by (simp add: process_blank trim_empty_iff)
  qed
  then show ?thesis by simp
qed

lemma read_loop_lines:
  "read_loop parse d buffer reads
     = concat (map (process_line parse) (split_nl (buffer @ decode_reads d reads)))"
proof (induction reads arbitrary: d buffer)
  case Nil
  then show ?case using blank_buffer_no_events[of buffer parse] by simp
next
  case (Cons v reads)
  obtain d' chunk where dv: "decode d v = (d', chunk)" by (cases "decode d v")
  have "split_nl ((buffer @ chunk) @ decode_reads d' reads)
          = butlast (split_nl (buffer @ chunk))
            @ split_nl (last (split_nl (buffer @ chunk)) @ decode_reads d' reads)"
    by (rule split_nl_append)
  then show ?case using Cons.IH[of d' "last (split_nl (buffer @ chunk))"] dv
    by (simp add: Let_def)
qed

lemma decode_append:
  "decode d (a @ b) =
     (case decode d a of (d', out) \<Rightarrow> (case decode d' b of (d'', out') \<Rightarrow> (d'', out @ out')))"
  by (induction a arbitrary: d) (auto split: prod.splits)

lemma decode_reads_concat: "decode_reads d reads = snd (decode d (concat reads))"
  by (induction reads arbitrary: d) (auto simp: decode_append split: prod.splits)

lemma sse_events_lines:
  "sse_events parse reads
     = concat (map (process_line parse) (split_nl (snd (decode new_TextDecoder (concat reads)))))"
  by (simp add: sse_events_def read_loop_lines decode_reads_concat)

lemma data_prefix_not_blank:
  assumes "take 6 line = lit ''data: ''"
  shows "trim line \<noteq> []"
proof -
  have "line \<noteq> []" using assms by (auto simp: lit_def)
  then have "hd line = 100" using assms by (cases line) (auto simp: lit_def)
  then have "\<not> is_js_space (hd line)" by (simp add: is_js_space_def)
  then have "\<not> list_all is_js_space line"
    using \<open>line \<noteq> []\<close> by (cases line) auto
  then show ?thesis by (simp add: trim_empty_iff)
qed

lemma process_line_cases:
  "process_line parse line =
     (if take 6 line = lit ''data: '' then
        (if trim (drop 6 line) = lit ''[DONE]'' then []
         else (case parse (trim (drop 6 line)) of Some parsed \<Rightarrow> [parsed] | None \<Rightarrow> []))
      else [])"
  using data_prefix_not_blank[of line] by (simp add: process_line_def Let_def)

lemma decode_ascii:
  "list_all (\<lambda>b. b \<le> 0x7F) bs \<Longrightarrow> utf8 d = utf8_initial \<Longrightarrow>
   snd (decode d bs) = map unat bs \<and> utf8 (fst (decode d bs)) = utf8_initial"
proof (induction bs arbitrary: d)
  case Nil
  then show ?case by simp
next
  case (Cons b bs)
  then have b: "b \<le> 0x7F" and rest: "list_all (\<lambda>b. b \<le> 0x7F) bs" by simp_all
  have step: "utf8_step (utf8 d) b = (utf8_initial, [unat b])"
    using b Cons.prems(2) by (simp add: utf8_step_def utf8_lead_def utf8_initial_def)
  have "unat b \<le> 127" using b by (simp add: word_le_nat_alt)
  then have ser: "serialize (bom_seen d) [unat b] = (True, [unat b])"
    by (simp add: utf16_def)
  obtain d' out where rec: "decode \<lparr>utf8 = utf8_initial, bom_seen = True\<rparr> bs = (d', out)"
    by (cases "decode \<lparr>utf8 = utf8_initial, bom_seen = True\<rparr> bs")
  have "out = map unat bs" "utf8 d' = utf8_initial"
    using Cons.IH[OF rest, of "\<lparr>utf8 = utf8_initial, bom_seen = True\<rparr>"] rec by simp_all
  then show ?case
    using step ser rec by (simp del: serialize.simps)
qed

lemma data_line_text: \<open>map unat data_line = lit ''data: {"a":1}''\<close>
  by (simp add: data_line_def lit_def)

lemma payload_a1_text: \<open>payload_a1 = lit ''{"a":1}''\<close>
  by (simp add: payload_a1_def lit_def)

lemma data_line_ascii: "list_all (\<lambda>b. b \<le> 0x7F) (data_line @ [10])"
  by (simp add: data_line_def)

lemma decode_data_line:
  "snd (decode new_TextDecoder (data_line @ [10])) = map unat data_line @ [10]"
  "snd (decode new_TextDecoder data_line) = map unat data_line"
  using decode_ascii[OF data_line_ascii, of new_TextDecoder]
    decode_ascii[of data_line new_TextDecoder] data_line_ascii
  by (simp_all add: new_TextDecoder_def)

lemma data_line_events:
  assumes "parse payload_a1 = Some object_a1"
  shows "concat (map (process_line parse) (split_nl (map unat data_line @ [10]))) = [object_a1]"
    and "concat (map (process_line parse) (split_nl (map unat data_line))) = [object_a1]"
proof -
  have l: "process_line parse (map unat data_line) = [object_a1]"
    using assms
    by (simp add: process_line_cases data_line_def lit_def trim_def is_js_space_def payload_a1_def)
  have e: "process_line parse [] = []"
    by (simp add: process_line_cases lit_def)
  have s1: "split_nl (map unat data_line @ [10]) = [map unat data_line, []]"
    by (simp add: data_line_def)
  have s2: "split_nl (map unat data_line) = [map unat data_line]"
    by (simp add: data_line_def)
  show "concat (map (process_line parse) (split_nl (map unat data_line @ [10]))) = [object_a1]"
    by (simp add: s1 l e)
  show "concat (map (process_line parse) (split_nl (map unat data_line))) = [object_a1]"
    by (simp add: s2 l)
qed

subsection \<open>Claim C6\<close>

text \<open>
  Claim C6, as stated, fails. The source tests the prefix on the untrimmed line and parses
  nothing that lacks it: a line holding only a JSON payload, and a data line with a blank
  before the prefix, yield an event under the procedure the claim describes and none in
  the code.
\<close>

theorem unprefixed_line_skipped:
  "spec_process_line example_parse payload_a1 = [object_a1] \<and>
   process_line example_parse payload_a1 = [] \<and>
   spec_process_line example_parse (32 # map unat data_line) = [object_a1] \<and>
   process_line example_parse (32 # map unat data_line) = []"
  by (simp add: spec_process_line_def process_line_def example_parse_def payload_a1_def
        data_line_def trim_def is_js_space_def lit_def)

text \<open>
  Claim C6, amended. A line yields an event only if it starts, untrimmed, with the
  prefix \<open>data: \<close>; every other line is skipped unparsed. For a line with the prefix, the
  prefix is stripped and the remainder trimmed; the payload \<open>[DONE]\<close> yields nothing;
  any other payload is parsed, yielding the parsed value on success and nothing on
  failure. The events of a whole stream are those of the lines of its decoded text, in the
  order of the lines, whatever the chunks of the reads: no line with the prefix and a
  parsable payload is dropped.
\<close>

theorem decoder_events:
  "process_line parse line =
     (if take 6 line = lit ''data: '' then
        (if trim (drop 6 line) = lit ''[DONE]'' then []
         else (case parse (trim (drop 6 line)) of Some parsed \<Rightarrow> [parsed] | None \<Rightarrow> []))
      else []) \<and>
   sse_events parse reads
     = concat (map (process_line parse) (split_nl (snd (decode new_TextDecoder (concat reads)))))"
  using process_line_cases[of parse line] sse_events_lines[of parse reads] by simp

subsection \<open>Claim C7\<close>

text \<open>
  Claim C7. When \<open>JSON.parse\<close> reads the payload \<open>{"a":1}\<close> as the object with the one
  member \<open>a = 1\<close>: the bytes of the line \<open>data: {"a":1}\<close> and a newline, delivered in two
  reads split at any offset \<open>k\<close>, yield exactly that one event; so do the bytes of the line
  without the newline, which is processed when the source ends. For any bytes at all,
  also with a multi-byte character cut in two, two reads yield what a single read of the
  same bytes yields.
\<close>

theorem split_line_one_event:
  assumes "parse payload_a1 = Some object_a1"
  shows "sse_events parse [take k (data_line @ [10]), drop k (data_line @ [10])] = [object_a1] \<and>
         sse_events parse [take k data_line, drop k data_line] = [object_a1] \<and>
         sse_events parse [take n bs, drop n bs] = sse_events parse [bs]"
proof -
  have c: "concat [take i xs, drop i xs] = xs" "concat [xs] = xs" for i and xs :: "byte list"
    by simp_all
  show ?thesis
    unfolding sse_events_lines c decode_data_line
    using data_line_events[of parse, OF assms] by simp
qed

theorem split_line_one_event_witness:
  "example_parse payload_a1 = Some object_a1 \<and>
   sse_events example_parse [take 9 (data_line @ [10]), drop 9 (data_line @ [10])] = [object_a1] \<and>
   sse_events example_parse [take 9 data_line, drop 9 data_line] = [object_a1] \<and>
   sse_events example_parse [take 1 [0xE2, 0x82, 0xAC], drop 1 [0xE2, 0x82, 0xAC]]
     = sse_events example_parse [[0xE2, 0x82, 0xAC]]"
proof -
  have p: "example_parse payload_a1 = Some object_a1"
    by (simp add: example_parse_def)
  show ?thesis
    using p split_line_one_event[where parse = example_parse and k = 9 and n = 1
        and bs = "[0xE2, 0x82, 0xAC]", OF p]
    by (simp only: simp_thms)
qed

section \<open>The dispatcher: calls to the response writer\<close>

lemma build_Providers_empty: "build_Providers empty_config = []"
  by (simp add: build_Providers_def empty_config_def)

lemma build_Providers_one:
  "build_Providers one_provider_config
     = [(lit ''p1'', example_provider), (lit ''default'', example_provider)]"
  by (simp add: build_Providers_def one_provider_config_def example_provider_def lit_def)

lemma formatRequest_hi:
  "\<exists>data. formatRequest stringify t1 t2 example_hi = (Outbound data, []) \<and> \<not> out_stream data"
  by (simp add: formatRequest_def build_request_def example_hi_def openAIMessages_def
        translate_message_def Let_def)

lemma formatRequest_null_entry:
  "formatRequest stringify t1 t2 example_null_entry =
     (Inbound example_null_entry,
      [\<lparr>call_completion =
           ChunkSequence [error_chunk t1 t2 (lit ''m'') null_type_error],
         call_model = lit ''m'', call_body = Inbound example_null_entry\<rparr>])"
  by (simp add: formatRequest_def build_request_def example_null_entry_def openAIMessages_def
        translate_message_def)

text \<open>
  What \<open>formatRequest\<close> does when the translation throws, in general: one call to the
  writer, with the one-element sequence holding the error chunk.
\<close>

lemma formatRequest_on_error:
  "build_request stringify b = Inl (JsError msg) \<Longrightarrow>
   snd (formatRequest stringify t1 t2 b) =
     [\<lparr>call_completion = ChunkSequence
         [\<lparr>chunk_id = lit ''error_'' @ decimal t1, chunk_created = t2 div 1000,
           chunk_model = in_model b, chunk_object = lit ''chat.completion.chunk'',
           chunk_choices = [\<lparr>choice_index = 0, delta_content = lit ''Error: '' @ msg,
                              finish_reason = lit ''stop''\<rparr>]\<rparr>],
        call_model = in_model b, call_body = Inbound b\<rparr>]"
  by (simp add: formatRequest_def error_chunk_def)

subsection \<open>Claim C1\<close>

text \<open>
  Claim C1 says that the response writer is called exactly once for every request, and
  with an error chunk on every failure. The route handler does not do so: its \<open>catch\<close>
  block only logs. With no provider registered, or with an upstream answering 500, a
  well-formed request leads to no call at all; and a request whose translation throws gets
  the error chunk from \<open>formatRequest\<close>, which then passes on to the handler, so that
  with a working upstream the writer is called a second time.
\<close>

theorem writer_not_called_once:
  "serve_request (build_Providers empty_config) fetch parse stringify t1 t2 None example_hi = [] \<and>
   serve_request (build_Providers one_provider_config) fetch_500 parse stringify t1 t2
     None example_hi = [] \<and>
   serve_request (build_Providers one_provider_config) fetch_200 parse stringify t1 t2
     None example_null_entry =
     [\<lparr>call_completion = ChunkSequence [error_chunk t1 t2 (lit ''m'') null_type_error],
        call_model = lit ''m'', call_body = Inbound example_null_entry\<rparr>,
      \<lparr>call_completion = ResponseObject JNull,
        call_model = lit ''m'', call_body = Inbound example_null_entry\<rparr>]"
proof -
  obtain data where d: "formatRequest stringify t1 t2 example_hi = (Outbound data, [])"
    using formatRequest_hi by blast
  have a: "serve_request (build_Providers empty_config) fetch parse stringify t1 t2 None example_hi = []"
    by (simp add: serve_request_def d post_messages_def build_Providers_empty Map_get_def)
  have look: "Map_get (build_Providers one_provider_config) (provider_or_default None)
                = Some example_provider"
    by (simp add: build_Providers_one Map_get_def provider_or_default_def lit_def)
  have b: "serve_request (build_Providers one_provider_config) fetch_500 parse stringify t1 t2
             None example_hi = []"
    by (simp add: serve_request_def d post_messages_def look fetch_500_def)
  have c: "serve_request (build_Providers one_provider_config) fetch_200 parse stringify t1 t2
     None example_null_entry =
     [\<lparr>call_completion = ChunkSequence [error_chunk t1 t2 (lit ''m'') null_type_error],
        call_model = lit ''m'', call_body = Inbound example_null_entry\<rparr>,
      \<lparr>call_completion = ResponseObject JNull,
        call_model = lit ''m'', call_body = Inbound example_null_entry\<rparr>]"
    by (simp add: serve_request_def formatRequest_null_entry post_messages_def look fetch_200_def)
       (simp add: example_null_entry_def)
  show ?thesis using a b c by simp
qed

section \<open>The provider client cache\<close>


lemma find_key:
  "find (\<lambda>e. entry_key e = k) cache = Some e \<Longrightarrow> e \<in> set cache \<and> entry_key e = k"
  by (auto simp: find_Some_iff)

lemma find_key_None:
  "find (\<lambda>e. entry_key e = k) cache = None \<longleftrightarrow> k \<notin> set (cache_keys cache)"
  by (auto simp: find_None_iff cache_keys_def)

lemma filter_absent_key:
  "k \<notin> set (cache_keys cache) \<Longrightarrow> filter (\<lambda>e'. entry_key e' \<noteq> k) cache = cache"
  by (auto simp: cache_keys_def filter_id_conv)


lemma cache_get_hit:
  assumes "find (\<lambda>e. entry_key e = k) cache = Some e" and "\<not> is_stale now e"
  shows "cache_get now cache k
           = (Some (entry_value e), e # filter (\<lambda>e'. entry_key e' \<noteq> k) cache)"
  using assms by (simp add: cache_get_def)


lemma cache_get_miss_drops_key:
  assumes "cache_get now cache k = (None, cache')"
  shows "cache' = filter (\<lambda>e'. entry_key e' \<noteq> k) cache"
proof (cases "find (\<lambda>e. entry_key e = k) cache")
  case None
  then have "k \<notin> set (cache_keys cache)" by (simp add: find_key_None)
  then show ?thesis using assms None
    by (simp add: cache_get_def filter_absent_key)
next
  case (Some e)
  then show ?thesis using assms
    by (auto simp: cache_get_def split: if_splits)
qed



lemma instance_hit:
  assumes "Map_get Providers providerName = Some provider"
    and "find (\<lambda>e. entry_key e = name provider) (providerCache p) = Some e"
    and "\<not> is_stale now e"
  shows "getProviderInstance Providers now p providerName =
           Inr (entry_value e,
                p\<lparr>providerCache :=
                    e # filter (\<lambda>e'. entry_key e' \<noteq> name provider) (providerCache p)\<rparr>)"
  using assms(1) cache_get_hit[OF assms(2,3)]
  by (simp add: getProviderInstance_def)

lemma instance_cached:
  assumes "Map_get Providers providerName = Some provider"
    and "getProviderInstance Providers now p providerName = Inr (client, p')"
  shows "\<exists>e. find (\<lambda>e. entry_key e = name provider) (providerCache p') = Some e \<and>
             entry_value e = client"
proof (cases "cache_get now (providerCache p) (name provider)")
  case (Pair r cache')
  show ?thesis
  proof (cases r)
    case None
    then show ?thesis using assms Pair
      by (auto simp: getProviderInstance_def cache_set_def Let_def)
  next
    case (Some openai)
    then obtain e where e: "find (\<lambda>e. entry_key e = name provider) (providerCache p) = Some e"
      "\<not> is_stale now e" "entry_value e = openai"
      "cache' = e # filter (\<lambda>e'. entry_key e' \<noteq> name provider) (providerCache p)"
      using Pair by (auto simp: cache_get_def split: option.splits if_splits)
    have "entry_key e = name provider" using find_key[OF e(1)] by simp
    then show ?thesis using assms Pair Some e
      by (auto simp: getProviderInstance_def)
  qed
qed



lemma instance_keys:
  assumes "Map_get Providers providerName = Some provider"
    and "getProviderInstance Providers now p providerName = Inr (client, p')"
  shows "set (cache_keys (providerCache p'))
           \<subseteq> insert (name provider) (set (cache_keys (providerCache p)))"
proof -
  obtain r cache' where g: "cache_get now (providerCache p) (name provider) = (r, cache')"
    by (cases "cache_get now (providerCache p) (name provider)")
  have sub: "set (cache_keys cache') \<subseteq> insert (name provider) (set (cache_keys (providerCache p)))"
    using g
    by (auto simp: cache_get_def cache_keys_def find_Some_iff split: option.splits if_splits)
  show ?thesis
  proof (cases r)
    case None
    have step: "set (cache_keys (cache_set now cache' (name provider) v))
            \<subseteq> insert (name provider) (set (cache_keys cache'))" for v
      by (auto simp: cache_set_def cache_keys_def Let_def dest: in_set_butlastD)
    have "providerCache p' = cache_set now cache' (name provider)
            \<lparr>client_id = constructed p, baseURL = api_base_url provider,
             apiKey = api_key provider\<rparr>"
      using assms g None by (auto simp: getProviderInstance_def Let_def)
    then show ?thesis
      using step[of "\<lparr>client_id = constructed p, baseURL = api_base_url provider,
             apiKey = api_key provider\<rparr>"] sub by auto
  next
    case (Some openai)
    then show ?thesis using assms g sub
      by (auto simp: getProviderInstance_def)
  qed
qed

lemma instance_again:
  assumes "Map_get Providers providerName = Some provider"
    and "Map_get Providers otherName = Some provider"
    and "getProviderInstance Providers t0 p providerName = Inr (client, p1)"
    and "find (\<lambda>e. entry_key e = name provider) (providerCache p1) = Some e"
    and "t1 - entry_start e \<le> cache_ttl"
  shows "getProviderInstance Providers t1 p1 otherName =
           Inr (client,
                p1\<lparr>providerCache :=
                     e # filter (\<lambda>e'. entry_key e' \<noteq> name provider) (providerCache p1)\<rparr>)"
proof -
  have "entry_value e = client"
    using instance_cached[OF assms(1,3)] assms(4) by simp
  moreover have "\<not> is_stale t1 e"
    using assms(5) by (simp add: is_stale_def)
  ultimately show ?thesis
    using instance_hit[OF assms(2,4)] by simp
qed

subsection \<open>Claim C9\<close>



subsection \<open>Claim C10\<close>

text \<open>
  Claim C10. The cache is keyed by the \<open>name\<close> field of the provider found, not by the
  name looked up. When the registry maps \<open>default\<close> to a provider that it also maps under
  the provider's own name, a lookup of \<open>default\<close> followed, while the entry is live, by a
  lookup of the provider's own name returns the same client, constructs nothing, and leaves
  exactly one cache entry under the provider's name; no key other than that name is added
  to the cache.
\<close>

theorem default_alias_shares_entry:
  assumes "Map_get Providers (lit ''default'') = Some provider"
    and "Map_get Providers (name provider) = Some provider"
    and "getProviderInstance Providers t0 p (lit ''default'') = Inr (client, p1)"
    and "find (\<lambda>e. entry_key e = name provider) (providerCache p1) = Some e"
    and "t1 - entry_start e \<le> cache_ttl"
  shows "\<exists>p2. getProviderInstance Providers t1 p1 (name provider) = Inr (client, p2) \<and>
              constructed p2 = constructed p1 \<and>
              filter (\<lambda>e'. entry_key e' = name provider) (providerCache p2) = [e] \<and>
              entry_value e = client \<and>
              set (cache_keys (providerCache p2))
                \<subseteq> insert (name provider) (set (cache_keys (providerCache p)))"
proof -
  define p2 where
    "p2 = p1\<lparr>providerCache :=
               e # filter (\<lambda>e'. entry_key e' \<noteq> name provider) (providerCache p1)\<rparr>"
  have second: "getProviderInstance Providers t1 p1 (name provider) = Inr (client, p2)"
    unfolding p2_def using assms by (rule instance_again)
  have key: "entry_key e = name provider" using find_key[OF assms(4)] by simp
  have one: "filter (\<lambda>e'. entry_key e' = name provider) (providerCache p2) = [e]"
    using key by (simp add: p2_def filter_empty_conv)
  have val: "entry_value e = client"
    using instance_cached[OF assms(1,3)] assms(4) by simp
  have "set (cache_keys (providerCache p2)) \<subseteq> insert (name provider) (set (cache_keys (providerCache p1)))"
    using key by (auto simp: p2_def cache_keys_def)
  then have keys: "set (cache_keys (providerCache p2))
                \<subseteq> insert (name provider) (set (cache_keys (providerCache p)))"
    using instance_keys[OF assms(1,3)] by blast
  have "constructed p2 = constructed p1" by (simp add: p2_def)
  with second one val keys show ?thesis by blast
qed

theorem default_alias_shares_entry_witness:
  "Map_get (build_Providers one_provider_config) (lit ''default'') = Some example_provider \<and>
   Map_get (build_Providers one_provider_config) (name example_provider) = Some example_provider \<and>
   getProviderInstance (build_Providers one_provider_config) 0
     \<lparr>providerCache = [], constructed = 0\<rparr> (lit ''default'')
     = Inr (first_client, \<lparr>providerCache = [first_entry], constructed = 1\<rparr>) \<and>
   (\<exists>p2. getProviderInstance (build_Providers one_provider_config) 1000
            \<lparr>providerCache = [first_entry], constructed = 1\<rparr> (name example_provider)
            = Inr (first_client, p2) \<and>
         constructed p2 = 1 \<and>
         filter (\<lambda>e'. entry_key e' = name example_provider) (providerCache p2) = [first_entry] \<and>
         set (cache_keys (providerCache p2)) \<subseteq> {name example_provider})"
proof -
  have a: "Map_get (build_Providers one_provider_config) (lit ''default'') = Some example_provider"
    by (simp add: build_Providers_one Map_get_def lit_def)
  have b: "Map_get (build_Providers one_provider_config) (name example_provider) = Some example_provider"
    by (simp add: build_Providers_one Map_get_def example_provider_def)
  have c: "getProviderInstance (build_Providers one_provider_config) 0
     \<lparr>providerCache = [], constructed = 0\<rparr> (lit ''default'')
     = Inr (first_client, \<lparr>providerCache = [first_entry], constructed = 1\<rparr>)"
    by (simp add: getProviderInstance_def a cache_get_def cache_set_def cache_max_def
          first_client_def first_entry_def example_provider_def Let_def)
  have d: "find (\<lambda>e. entry_key e = name example_provider)
             (providerCache \<lparr>providerCache = [first_entry], constructed = 1\<rparr>) = Some first_entry"
    by (simp add: first_entry_def example_provider_def)
  have e: "1000 - entry_start first_entry \<le> cache_ttl"
    by (simp add: first_entry_def cache_ttl_def)
  from default_alias_shares_entry[OF a b c d e] obtain p2 where
    p2: "getProviderInstance (build_Providers one_provider_config) 1000
           \<lparr>providerCache = [first_entry], constructed = 1\<rparr> (name example_provider)
           = Inr (first_client, p2)"
      "constructed p2 = constructed \<lparr>providerCache = [first_entry], constructed = 1\<rparr>"
      "filter (\<lambda>e'. entry_key e' = name example_provider) (providerCache p2) = [first_entry]"
      "set (cache_keys (providerCache p2))
         \<subseteq> insert (name example_provider)
             (set (cache_keys (providerCache \<lparr>providerCache = [], constructed = 0\<rparr>)))"
    by blast
  have one: "constructed p2 = 1" using p2(2) by simp
  have sub: "set (cache_keys (providerCache p2)) \<subseteq> {name example_provider}"
    using p2(4) by (simp add: cache_keys_def)
  show ?thesis
    using a b c p2(1,3) one sub by blast
qed

end
